theory Spec2Isabelle
  imports Main
begin

section \<open>Strings, code units and character classes\<close>

text \<open>
  The program is TypeScript; its strings are sequences of UTF-16 code units. The model
  covers the strings whose code units all lie in U+0000..U+00FF: a character is an
  Isabelle \<^typ>\<open>char\<close> (eight bits), read as the code unit of the same number, so ASCII
  and the Latin-1 supplement are present and everything above U+00FF is outside the
  model. \<open>toLowerCase\<close> maps this range into itself. \<open>toUpperCase\<close> does not
  (U+00DF becomes two units, U+00B5 and U+00FF leave the range), so its result is given
  as a list of code units.
\<close>

definition code :: "char \<Rightarrow> nat" where
  "code c = of_char c"

definition units :: "string \<Rightarrow> nat list" where
  "units s = map code s"

definition fromUnits :: "nat list \<Rightarrow> string" where
  \<comment> \<open>reads code units below 256 back as characters\<close>
  "fromUnits us = map char_of us"

definition az :: "char \<Rightarrow> bool" where
  \<comment> \<open>the regex class \<open>[a-z]\<close>\<close>
  "az c = (97 \<le> code c \<and> code c \<le> 122)"

definition AZ :: "char \<Rightarrow> bool" where
  \<comment> \<open>the regex class \<open>[A-Z]\<close>\<close>
  "AZ c = (65 \<le> code c \<and> code c \<le> 90)"

definition d09 :: "char \<Rightarrow> bool" where
  \<comment> \<open>the regex class \<open>[0-9]\<close>\<close>
  "d09 c = (48 \<le> code c \<and> code c \<le> 57)"

definition wordChar :: "char \<Rightarrow> bool" where
  \<comment> \<open>the regex class \<open>\w\<close>, which is \<open>[A-Za-z0-9_]\<close>\<close>
  "wordChar c = (AZ c \<or> az c \<or> d09 c \<or> c = CHR ''_'')"

definition lowerOrDigit :: "char \<Rightarrow> bool" where
  \<comment> \<open>the regex class \<open>[a-z0-9]\<close>\<close>
  "lowerOrDigit c = (az c \<or> d09 c)"

definition alnum :: "char \<Rightarrow> bool" where
  \<comment> \<open>the regex class \<open>[a-zA-Z0-9]\<close>\<close>
  "alnum c = (az c \<or> AZ c \<or> d09 c)"

definition snakeChar :: "char \<Rightarrow> bool" where
  \<comment> \<open>the regex class \<open>[a-z0-9_]\<close>\<close>
  "snakeChar c = (az c \<or> d09 c \<or> c = CHR ''_'')"

definition identStart :: "char \<Rightarrow> bool" where
  \<comment> \<open>the regex class \<open>[a-zA-Z_]\<close>\<close>
  "identStart c = (az c \<or> AZ c \<or> c = CHR ''_'')"

definition identChar :: "char \<Rightarrow> bool" where
  \<comment> \<open>the regex class \<open>[a-zA-Z0-9_]\<close>\<close>
  "identChar c = (az c \<or> AZ c \<or> d09 c \<or> c = CHR ''_'')"

definition lowerOrUnderscore :: "char \<Rightarrow> bool" where
  \<comment> \<open>the regex class \<open>[a-z_]\<close>\<close>
  "lowerOrUnderscore c = (az c \<or> c = CHR ''_'')"

definition isChar :: "char \<Rightarrow> char \<Rightarrow> bool" where
  \<comment> \<open>the class of one character\<close>
  "isChar x c = (c = x)"

definition whiteSpace :: "char \<Rightarrow> bool" where
  \<comment> \<open>the regex class \<open>\s\<close> and the characters that \<open>trim\<close> strips, below U+0100:
      tab, line feed, vertical tab, form feed, carriage return, space, no-break space\<close>
  "whiteSpace c = (code c \<in> {9, 10, 11, 12, 13, 32, 160})"

definition lowerChar :: "char \<Rightarrow> char" where
  \<comment> \<open>A..Z and U+00C0..U+00DE (without the multiplication sign U+00D7) move up by 32\<close>
  "lowerChar c =
     (if AZ c \<or> (192 \<le> code c \<and> code c \<le> 222 \<and> code c \<noteq> 215)
      then char_of (code c + 32) else c)"

definition toLowerCase :: "string \<Rightarrow> string" where
  "toLowerCase s = map lowerChar s"

definition upperChar :: "char \<Rightarrow> char" where
  \<comment> \<open>a..z and U+00E0..U+00FE (without the division sign U+00F7) move down by 32; the
      other characters have no capital of one code unit in the range\<close>
  "upperChar c =
     (if az c \<or> (224 \<le> code c \<and> code c \<le> 254 \<and> code c \<noteq> 247)
      then char_of (code c - 32) else c)"

definition upperUnits :: "char \<Rightarrow> nat list" where
  \<comment> \<open>U+00DF becomes SS, U+00B5 becomes U+039C, U+00FF becomes U+0178\<close>
  "upperUnits c =
     (if code c = 223 then [83, 83]
      else if code c = 181 then [924]
      else if code c = 255 then [376]
      else [code (upperChar c)])"

definition toUpperCase :: "string \<Rightarrow> nat list" where
  "toUpperCase s = concat (map upperUnits s)"

definition startsWith :: "'a list \<Rightarrow> 'a list \<Rightarrow> bool" where
  "startsWith s p = (take (length p) s = p)"

definition endsWith :: "'a list \<Rightarrow> 'a list \<Rightarrow> bool" where
  "endsWith s p = (length p \<le> length s \<and> drop (length s - length p) s = p)"

fun includes' :: "string \<Rightarrow> string \<Rightarrow> bool" where
  \<comment> \<open>\<open>s.includes(p)\<close>: \<open>p\<close> occurs in \<open>s\<close> at some position\<close>
  "includes' [] p = (p = [])"
| "includes' (c # cs) p = (startsWith (c # cs) p \<or> includes' cs p)"

definition trim :: "string \<Rightarrow> string" where
  "trim s = rev (dropWhile whiteSpace (rev (dropWhile whiteSpace s)))"

fun split :: "string \<Rightarrow> char \<Rightarrow> string list" where
  \<comment> \<open>\<open>s.split(sep)\<close> for a separator of one character: never an empty list\<close>
  "split [] sep = [[]]"
| "split (c # cs) sep =
     (if c = sep then [] # split cs sep
      else (case split cs sep of l # ls \<Rightarrow> (c # l) # ls | [] \<Rightarrow> [[c]]))"

section \<open>Regular expressions\<close>

text \<open>
  The program does its work with regex literals. They are modelled by their syntax and
  a backtracking matcher in the style of the language definition: a pattern is matched
  against a continuation, which says what has to match after it; a choice that makes the
  continuation fail is given up for the next one. Only the constructs that the patterns
  of the program use are present.
\<close>

datatype regex =
    Cls "char \<Rightarrow> bool"  \<comment> \<open>one character of a class; a literal is the class of one\<close>
  | Cat regex regex      \<comment> \<open>one pattern after the other\<close>
  | Many regex           \<comment> \<open>\<open>r*\<close>, greedy\<close>
  | Maybe regex          \<comment> \<open>\<open>r?\<close>, greedy\<close>
  | Cap nat regex        \<comment> \<open>capture group with its number\<close>
  | Bol                  \<comment> \<open>\<open>^\<close> (no flag \<open>m\<close>): the start of the input\<close>
  | Eol                  \<comment> \<open>\<open>$\<close> (no flag \<open>m\<close>): the end of the input\<close>
  | WordB                \<comment> \<open>\<open>\b\<close>\<close>

definition Many1 :: "regex \<Rightarrow> regex" where
  \<comment> \<open>\<open>r+\<close>\<close>
  "Many1 r = Cat r (Many r)"

definition Lit :: "char \<Rightarrow> regex" where
  "Lit c = Cls (isChar c)"

definition ignoreCase :: "(char \<Rightarrow> bool) \<Rightarrow> char \<Rightarrow> bool" where
  \<comment> \<open>a class under the flag \<open>i\<close>: a character matches when it or its other case is in
      the class. A character from U+0080 on is never folded onto an ASCII letter.\<close>
  "ignoreCase p c = (p c \<or> p (lowerChar c) \<or> p (upperChar c))"

text \<open>
  The state of a match: the character before the current position (none at the start of
  the input), the input from the current position on, and the text of the capture groups
  so far.
\<close>

record mstate =
  prevChar :: "char option"
  rest :: string
  groups :: "nat \<Rightarrow> string"

type_synonym cont = "mstate \<Rightarrow> mstate option"

definition orElse :: "'a option \<Rightarrow> 'a option \<Rightarrow> 'a option" where
  "orElse a b = (case a of Some r \<Rightarrow> Some r | None \<Rightarrow> b)"

text \<open>
  A greedy repetition tries one more round before it tries to go on, and a round that
  matches the empty string is refused: each round shortens the rest of the input.
\<close>

function repeat :: "(cont \<Rightarrow> cont) \<Rightarrow> cont \<Rightarrow> cont" where
  "repeat round k \<lparr>prevChar = p, rest = s, groups = g\<rparr> =
     orElse
       (round (\<lambda>st'. if length (rest st') < length s then repeat round k st' else None)
          \<lparr>prevChar = p, rest = s, groups = g\<rparr>)
       (k \<lparr>prevChar = p, rest = s, groups = g\<rparr>)"
  by (metis mstate.cases old.unit.exhaust prod_cases3) auto
termination
  by (relation "measure (\<lambda>(round, k, st). length (rest st))") auto

declare repeat.simps [simp del]

definition isWordBoundary :: "char option \<Rightarrow> string \<Rightarrow> bool" where
  "isWordBoundary prev s =
     ((case prev of None \<Rightarrow> False | Some p \<Rightarrow> wordChar p) \<noteq>
      (case s of [] \<Rightarrow> False | c # _ \<Rightarrow> wordChar c))"

fun matcher :: "regex \<Rightarrow> cont \<Rightarrow> cont" where
  "matcher (Cls p) k st =
     (case rest st of
        [] \<Rightarrow> None
      | c # cs \<Rightarrow> if p c then k (st\<lparr>prevChar := Some c, rest := cs\<rparr>) else None)"
| "matcher (Cat a b) k st = matcher a (matcher b k) st"
| "matcher (Many a) k st = repeat (matcher a) k st"
| "matcher (Maybe a) k st =
     orElse
       (matcher a (\<lambda>st'. if length (rest st') < length (rest st) then k st' else None) st)
       (k st)"
| "matcher (Cap i a) k st =
     matcher a
       (\<lambda>st'. k (st'\<lparr>groups :=
                       (groups st')(i := take (length (rest st) - length (rest st')) (rest st))\<rparr>))
       st"
| "matcher Bol k st = (if prevChar st = None then k st else None)"
| "matcher Eol k st = (if rest st = [] then k st else None)"
| "matcher WordB k st = (if isWordBoundary (prevChar st) (rest st) then k st else None)"

definition matchAt :: "regex \<Rightarrow> char option \<Rightarrow> string \<Rightarrow> mstate option" where
  \<comment> \<open>the match that starts at the current position, if there is one\<close>
  "matchAt r prev s = matcher r Some \<lparr>prevChar = prev, rest = s, groups = (\<lambda>_. [])\<rparr>"

fun searchFrom :: "regex \<Rightarrow> char option \<Rightarrow> string \<Rightarrow> mstate option" where
  \<comment> \<open>the leftmost match\<close>
  "searchFrom r prev [] = matchAt r prev []"
| "searchFrom r prev (c # cs) = orElse (matchAt r prev (c # cs)) (searchFrom r (Some c) cs)"

definition test :: "regex \<Rightarrow> string \<Rightarrow> bool" where
  \<comment> \<open>\<open>regex.test(s)\<close>\<close>
  "test r s = (searchFrom r None s \<noteq> None)"

definition match :: "regex \<Rightarrow> string \<Rightarrow> (nat \<Rightarrow> string) option" where
  \<comment> \<open>\<open>s.match(regex)\<close> for a regex without the flag \<open>g\<close>: the groups of the leftmost
      match\<close>
  "match r s = map_option groups (searchFrom r None s)"

text \<open>
  With the flag \<open>g\<close>, \<open>replace\<close> and \<open>matchAll\<close> go through the matches from the left.
  After a match the search resumes at its end; after an empty match it resumes one
  character further on. \<open>replace\<close> copies the text between the matches; the replacement is
  a function of the groups.
\<close>

function replaceFrom ::
  "regex \<Rightarrow> ((nat \<Rightarrow> string) \<Rightarrow> string) \<Rightarrow> char option \<Rightarrow> string \<Rightarrow> string" where
  "replaceFrom r tpl prev [] =
     (case matchAt r prev [] of None \<Rightarrow> [] | Some m \<Rightarrow> tpl (groups m))"
| "replaceFrom r tpl prev (c # cs) =
     (case matchAt r prev (c # cs) of
        None \<Rightarrow> c # replaceFrom r tpl (Some c) cs
      | Some m \<Rightarrow>
          if length (rest m) \<le> length cs
          then tpl (groups m) @ replaceFrom r tpl (prevChar m) (rest m)
          else tpl (groups m) @ c # replaceFrom r tpl (Some c) cs)"
  by pat_completeness auto
termination
  by (relation "measure (\<lambda>(r, tpl, prev, s). length s)") auto

declare replaceFrom.simps [simp del]

definition replaceAll :: "regex \<Rightarrow> ((nat \<Rightarrow> string) \<Rightarrow> string) \<Rightarrow> string \<Rightarrow> string" where
  \<comment> \<open>\<open>s.replace(regex, replacement)\<close> for a regex with the flag \<open>g\<close>\<close>
  "replaceAll r tpl s = replaceFrom r tpl None s"

function matchAllFrom :: "regex \<Rightarrow> char option \<Rightarrow> string \<Rightarrow> (nat \<Rightarrow> string) list" where
  "matchAllFrom r prev [] =
     (case matchAt r prev [] of None \<Rightarrow> [] | Some m \<Rightarrow> [groups m])"
| "matchAllFrom r prev (c # cs) =
     (case matchAt r prev (c # cs) of
        None \<Rightarrow> matchAllFrom r (Some c) cs
      | Some m \<Rightarrow>
          if length (rest m) \<le> length cs
          then groups m # matchAllFrom r (prevChar m) (rest m)
          else groups m # matchAllFrom r (Some c) cs)"
  by pat_completeness auto
termination
  by (relation "measure (\<lambda>(r, prev, s). length s)") auto

declare matchAllFrom.simps [simp del]

definition matchAll :: "regex \<Rightarrow> string \<Rightarrow> (nat \<Rightarrow> string) list" where
  \<comment> \<open>\<open>s.matchAll(regex)\<close>\<close>
  "matchAll r s = matchAllFrom r None s"

section \<open>caseUtils.ts\<close>

subsection \<open>isCamelCase\<close>

definition leadLowerRx :: regex where
  \<comment> \<open>\<open>/^[a-z]/\<close>\<close>
  "leadLowerRx = Cat Bol (Cls az)"

definition camelRx :: regex where
  \<comment> \<open>\<open>/^[a-z][a-zA-Z0-9]*$/\<close>\<close>
  "camelRx = Cat Bol (Cat (Cls az) (Cat (Many (Cls alnum)) Eol))"

definition isCamelCase :: "string \<Rightarrow> bool" where
  "isCamelCase name =
     (if name = [] \<or> length name = 0 then False
      else if \<not> test leadLowerRx name then False
      else if \<not> test camelRx name then False
      else True)"

subsection \<open>isSnakeCase\<close>

definition snakeRx :: regex where
  \<comment> \<open>\<open>/^[a-z][a-z0-9_]*$/\<close>\<close>
  "snakeRx =
     Cat Bol (Cat (Cls az) (Cat (Many (Cls snakeChar)) Eol))"

definition doubleUnderscoreRx :: regex where
  \<comment> \<open>\<open>/__/\<close>\<close>
  "doubleUnderscoreRx = Cat (Lit CHR ''_'') (Lit CHR ''_'')"

definition isSnakeCase :: "string \<Rightarrow> bool" where
  "isSnakeCase name =
     (if name = [] \<or> length name = 0 then False
      else if \<not> test leadLowerRx name then False
      else if \<not> test snakeRx name then False
      else if test doubleUnderscoreRx name \<or> endsWith name ''_'' then False
      else True)"

subsection \<open>camelToSnake\<close>

definition lowerUpperRx :: regex where
  \<comment> \<open>\<open>/([a-z0-9])([A-Z])/g\<close>\<close>
  "lowerUpperRx = Cat (Cap 1 (Cls lowerOrDigit)) (Cap 2 (Cls AZ))"

definition acronymRx :: regex where
  \<comment> \<open>\<open>/([A-Z])([A-Z][a-z])/g\<close>\<close>
  "acronymRx = Cat (Cap 1 (Cls AZ)) (Cap 2 (Cat (Cls AZ) (Cls az)))"

definition underscoreBetween :: "(nat \<Rightarrow> string) \<Rightarrow> string" where
  \<comment> \<open>the replacement \<open>$1_$2\<close>\<close>
  "underscoreBetween g = g 1 @ ''_'' @ g 2"

definition camelToSnake :: "string \<Rightarrow> string" where
  "camelToSnake name =
     (if name = [] then name
      else toLowerCase
             (replaceAll acronymRx underscoreBetween
                (replaceAll lowerUpperRx underscoreBetween name)))"

subsection \<open>snakeToCamel\<close>

definition underscoreRx :: regex where
  \<comment> \<open>\<open>/_([a-z0-9])/g\<close>\<close>
  "underscoreRx = Cat (Lit CHR ''_'') (Cap 1 (Cls lowerOrDigit))"

definition upperOfGroup :: "(nat \<Rightarrow> string) \<Rightarrow> string" where
  \<comment> \<open>the replacement function \<open>(_, char) => char.toUpperCase()\<close>; the group is one
      character of \<open>[a-z0-9]\<close>, whose upper case is one ASCII character\<close>
  "upperOfGroup g = fromUnits (toUpperCase (g 1))"

definition snakeToCamel :: "string \<Rightarrow> string" where
  "snakeToCamel name =
     (if name = [] then name
      else replaceAll underscoreRx upperOfGroup (toLowerCase name))"

subsection \<open>validateMapping\<close>

definition validateMapping :: "string \<Rightarrow> string \<Rightarrow> bool" where
  "validateMapping camelName snakeName = (camelToSnake camelName = snakeName)"

section \<open>parsers.ts\<close>

datatype Severity = Error | Warning

record LintIssue =
  "file" :: string
  line :: nat
  column :: string
  issue :: string
  severity :: Severity

definition newline :: char where
  "newline = CHR 0x0A"

definition quote :: char where
  \<comment> \<open>the double quote that the message templates put around a name\<close>
  "quote = CHR 0x22"

definition identRx :: regex where
  \<comment> \<open>\<open>[a-zA-Z_][a-zA-Z0-9_]*\<close>\<close>
  "identRx =
     Cat (Cls identStart) (Many (Cls identChar))"

subsection \<open>parseDatasource\<close>

definition columnRx :: regex where
  \<comment> \<open>\<^verbatim>\<open>/^`?([a-zA-Z_][a-zA-Z0-9_]*)`?\s+\w+/\<close>\<close>
  "columnRx =
     Cat Bol (Cat (Maybe (Lit (CHR 0x60))) (Cat (Cap 1 identRx) (Cat (Maybe (Lit (CHR 0x60)))
       (Cat (Many1 (Cls whiteSpace)) (Many1 (Cls wordChar))))))"

record DatasourceState =
  inSchemaSection :: bool
  lineNumber :: nat
  issues :: "LintIssue list"

definition datasourceLine :: "string \<Rightarrow> DatasourceState \<Rightarrow> string \<Rightarrow> DatasourceState" where
  \<comment> \<open>one turn of the loop over the lines\<close>
  "datasourceLine filename st ln =
     (let n = lineNumber st + 1;
          st1 = st\<lparr>lineNumber := n\<rparr>;
          trimmed = trim ln
      in if startsWith (toUpperCase trimmed) (units ''SCHEMA'')
         then st1\<lparr>inSchemaSection := True\<rparr>
         else if inSchemaSection st1 \<and>
                 (startsWith (toUpperCase trimmed) (units ''ENGINE'') \<or> trimmed = [])
         then (if startsWith (toUpperCase trimmed) (units ''ENGINE'')
               then st1\<lparr>inSchemaSection := False\<rparr>
               else st1)
         else if inSchemaSection st1 \<and> length trimmed > 0 \<and> \<not> startsWith trimmed ''#''
         then (case match columnRx trimmed of
                 None \<Rightarrow> st1
               | Some columnMatch \<Rightarrow>
                   let columnName = columnMatch 1
                   in if \<not> isSnakeCase columnName
                      then st1\<lparr>issues := issues st1 @
                             [\<lparr>file = filename, line = n, column = columnName,
                               issue = ''Column name '' @ [quote] @ columnName @ [quote] @
                                       '' should be in snake_case'',
                               severity = Error\<rparr>]\<rparr>
                      else st1)
         else st1)"

definition parseDatasource :: "string \<Rightarrow> string \<Rightarrow> LintIssue list" where
  "parseDatasource content filename =
     issues (foldl (datasourceLine filename)
               \<lparr>inSchemaSection = False, lineNumber = 0, issues = []\<rparr>
               (split content newline))"

subsection \<open>parsePipe\<close>

definition identRxI :: regex where
  \<comment> \<open>\<open>[a-zA-Z_][a-zA-Z0-9_]*\<close> under the flag \<open>i\<close>\<close>
  "identRxI =
     Cat (Cls (ignoreCase identStart)) (Many (Cls (ignoreCase identChar)))"

definition keywordAS :: regex where
  \<comment> \<open>\<open>AS\<close> under the flag \<open>i\<close>\<close>
  "keywordAS = Cat (Cls (ignoreCase (isChar CHR ''A''))) (Cls (ignoreCase (isChar CHR ''S'')))"

definition asRx :: regex where
  \<comment> \<open>\<^verbatim>\<open>/\b([a-zA-Z_][a-zA-Z0-9_]*)\s+AS\s+([a-zA-Z_][a-zA-Z0-9_]*)/gi\<close>\<close>
  "asRx =
     Cat WordB (Cat (Cap 1 identRxI) (Cat (Many1 (Cls whiteSpace)) (Cat keywordAS
       (Cat (Many1 (Cls whiteSpace)) (Cap 2 identRxI)))))"

definition snakeAliasRx :: regex where
  \<comment> \<open>\<^verbatim>\<open>/AS\s+([a-z_]+[_][a-z_]+)/i\<close>\<close>
  "snakeAliasRx =
     Cat keywordAS (Cat (Many1 (Cls whiteSpace))
       (Cap 1 (Cat (Many1 (Cls (ignoreCase lowerOrUnderscore)))
              (Cat (Cls (ignoreCase (isChar CHR ''_'')))
                   (Many1 (Cls (ignoreCase lowerOrUnderscore)))))))"

definition asIssues :: "string \<Rightarrow> nat \<Rightarrow> (nat \<Rightarrow> string) \<Rightarrow> LintIssue list" where
  \<comment> \<open>the body of the loop over the matches of \<open>asRx\<close>\<close>
  "asIssues filename n m =
     (let columnName = m 1; aliasName = m 2
      in (if \<not> isSnakeCase columnName \<and> \<not> includes' columnName ''(''
          then [\<lparr>file = filename, line = n, column = columnName,
                  issue = ''Column '' @ [quote] @ columnName @ [quote] @
                          '' should be in snake_case'',
                  severity = Error\<rparr>]
          else []) @
         (if \<not> isCamelCase aliasName
          then [\<lparr>file = filename, line = n, column = aliasName,
                  issue = ''Alias '' @ [quote] @ aliasName @ [quote] @
                          '' should be in camelCase for API output'',
                  severity = Error\<rparr>]
          else []))"

definition scanPipeLine :: "string \<Rightarrow> nat \<Rightarrow> string \<Rightarrow> LintIssue list" where
  \<comment> \<open>what one line inside the SQL block adds to the issues\<close>
  "scanPipeLine filename n ln =
     concat (map (asIssues filename n) (matchAll asRx ln)) @
     (case match snakeAliasRx ln of
        None \<Rightarrow> []
      | Some snakeCaseAliasMatch \<Rightarrow>
          let aliasName = snakeCaseAliasMatch 1
          in if isSnakeCase aliasName
             then [\<lparr>file = filename, line = n, column = aliasName,
                     issue = ''Alias '' @ [quote] @ aliasName @ [quote] @
                             '' is snake_case but should be camelCase for API output'',
                     severity = Error\<rparr>]
             else [])"

record PipeState =
  inSqlBlock :: bool
  pipeLineNumber :: nat
  pipeIssues :: "LintIssue list"

definition startsSql :: "string \<Rightarrow> bool" where
  \<comment> \<open>the test that opens the SQL block, on the line as read\<close>
  "startsSql ln =
     (startsWith (toUpperCase (trim ln)) (units ''SELECT'') \<or>
      startsWith (toUpperCase (trim ln)) (units ''WITH''))"

definition pipeLine :: "string \<Rightarrow> PipeState \<Rightarrow> string \<Rightarrow> PipeState" where
  \<comment> \<open>one turn of the loop over the lines\<close>
  "pipeLine filename st ln =
     (let n = pipeLineNumber st + 1;
          st1 = st\<lparr>pipeLineNumber := n\<rparr>;
          st2 = (if startsSql ln then st1\<lparr>inSqlBlock := True\<rparr> else st1)
      in if \<not> inSqlBlock st2 then st2
         else st2\<lparr>pipeIssues := pipeIssues st2 @ scanPipeLine filename n ln\<rparr>)"

definition parsePipe :: "string \<Rightarrow> string \<Rightarrow> LintIssue list" where
  "parsePipe content filename =
     pipeIssues (foldl (pipeLine filename)
                   \<lparr>inSqlBlock = False, pipeLineNumber = 0, pipeIssues = []\<rparr>
                   (split content newline))"

definition parseIncl :: "string \<Rightarrow> string \<Rightarrow> LintIssue list" where
  "parseIncl content filename = parsePipe content filename"

section \<open>The specification's wording\<close>

text \<open>
  The definitions of this section follow the specification, not the source; the theorems
  below compare them with the functions of the program.
\<close>

subsection \<open>Character classes by enumeration\<close>

definition lowerLetters :: string where
  "lowerLetters = ''abcdefghijklmnopqrstuvwxyz''"

definition upperLetters :: string where
  "upperLetters = ''ABCDEFGHIJKLMNOPQRSTUVWXYZ''"

definition digits :: string where
  "digits = ''0123456789''"

subsection \<open>The two boundary rules of camelToSnake\<close>

text \<open>
  Rule (a) puts an underscore between every lowercase-or-digit character and an uppercase
  character that follows it; rule (b) puts one between every uppercase character and an
  uppercase-then-lowercase pair that follows it. Both look at every position of their
  input, whatever was inserted before it.
\<close>

fun insertLowerUpper :: "string \<Rightarrow> string" where
  "insertLowerUpper (a # b # r) =
     (if (az a \<or> d09 a) \<and> AZ b then a # CHR ''_'' # insertLowerUpper (b # r)
      else a # insertLowerUpper (b # r))"
| "insertLowerUpper r = r"

fun insertAcronym :: "string \<Rightarrow> string" where
  "insertAcronym (a # b # c # r) =
     (if AZ a \<and> AZ b \<and> az c then a # CHR ''_'' # insertAcronym (b # c # r)
      else a # insertAcronym (b # c # r))"
| "insertAcronym r = r"

definition twoRuleBoundary :: "string \<Rightarrow> string" where
  "twoRuleBoundary s = toLowerCase (insertAcronym (insertLowerUpper s))"

subsection \<open>Removing underscores\<close>

text \<open>
  \<open>snakeToCamelClaimed\<close> is the conversion as the specification words it: after
  lowercasing, every underscore that is followed by a character is removed and that
  character is uppercased. \<open>dropUnderscores\<close> does so only where the character is a
  lowercase ASCII letter or a digit, and keeps every other underscore.
\<close>

fun dropEveryUnderscore :: "string \<Rightarrow> string" where
  "dropEveryUnderscore (u # c # r) =
     (if u = CHR ''_'' then fromUnits (toUpperCase [c]) @ dropEveryUnderscore r
      else u # dropEveryUnderscore (c # r))"
| "dropEveryUnderscore r = r"

definition snakeToCamelClaimed :: "string \<Rightarrow> string" where
  "snakeToCamelClaimed s = dropEveryUnderscore (toLowerCase s)"

definition upperAscii :: "char \<Rightarrow> char" where
  \<comment> \<open>a lowercase ASCII letter becomes its capital; a digit stays\<close>
  "upperAscii c = (if az c then char_of (code c - 32) else c)"

fun dropUnderscores :: "string \<Rightarrow> string" where
  "dropUnderscores (u # c # r) =
     (if u = CHR ''_'' \<and> (az c \<or> d09 c) then upperAscii c # dropUnderscores r
      else u # dropUnderscores (c # r))"
| "dropUnderscores r = r"

subsection \<open>Lines of a datasource file\<close>

definition schemaHeader :: "string \<Rightarrow> bool" where
  \<comment> \<open>a line that opens the schema section\<close>
  "schemaHeader ln = startsWith (toUpperCase (trim ln)) (units ''SCHEMA'')"

definition quietLine :: "string \<Rightarrow> bool" where
  \<comment> \<open>a blank line, an \<open>ENGINE\<close> line or a comment\<close>
  "quietLine ln =
     (trim ln = [] \<or> startsWith (toUpperCase (trim ln)) (units ''ENGINE'') \<or>
      startsWith (trim ln) ''#'')"

section \<open>Auxiliary notions for the proofs\<close>

fun hasDoubleUnderscore :: "string \<Rightarrow> bool" where
  \<comment> \<open>two underscores in a row, somewhere\<close>
  "hasDoubleUnderscore (a # b # cs) =
     ((a = CHR ''_'' \<and> b = CHR ''_'') \<or> hasDoubleUnderscore (b # cs))"
| "hasDoubleUnderscore cs = False"

text \<open>
  Both boundary rules in one pass: \<open>bnd p b r\<close> says that an underscore goes between
  the previous character \<open>p\<close> and \<open>b\<close>, where \<open>r\<close> is what follows \<open>b\<close>.
  \<open>recase\<close> keeps the capitals that have a boundary before them and lowercases the
  other characters: it is what the way to snake case and back leaves of a name.
\<close>

definition bnd :: "char \<Rightarrow> char \<Rightarrow> string \<Rightarrow> bool" where
  "bnd p b r =
     (((az p \<or> d09 p) \<and> AZ b) \<or>
      (AZ p \<and> AZ b \<and> (case r of c # _ \<Rightarrow> az c | [] \<Rightarrow> False)))"

fun insgo :: "char \<Rightarrow> string \<Rightarrow> string" where
  "insgo p [] = []"
| "insgo p (b # r) = (if bnd p b r then CHR ''_'' # b # insgo b r else b # insgo b r)"

fun recase :: "char \<Rightarrow> string \<Rightarrow> string" where
  "recase p [] = []"
| "recase p (b # r) = (if bnd p b r then b else lowerChar b) # recase b r"

section \<open>Characters\<close>

lemma code_char_of: "code (char_of n) = n mod 256" by (simp add: code_def)
lemma code_underscore: "code CHR ''_'' = 95" by (simp add: code_def)

lemma not_class_underscore: "\<not> az CHR ''_''" "\<not> AZ CHR ''_''" "\<not> d09 CHR ''_''"
  by (simp_all add: az_def AZ_def d09_def code_def)

lemma lowerChar_az: "az c \<Longrightarrow> lowerChar c = c"
  by (auto simp: lowerChar_def az_def AZ_def)
lemma lowerChar_d09: "d09 c \<Longrightarrow> lowerChar c = c"
  by (auto simp: lowerChar_def d09_def AZ_def)
lemma lowerChar_underscore: "lowerChar CHR ''_'' = CHR ''_''"
  by (simp add: lowerChar_def AZ_def code_def)
lemma lowerChar_AZ: "AZ c \<Longrightarrow> az (lowerChar c)"
  by (auto simp: lowerChar_def az_def AZ_def code_char_of)

section \<open>The matcher on the patterns of caseUtils.ts\<close>

lemma orElse_simps: "orElse None b = b" "orElse (Some r) b = Some r" "orElse a None = a"
  by (simp_all add: orElse_def split: option.splits)

declare orElse_simps [simp]

lemma repeat_unfold:
  "repeat round k st =
     orElse
       (round (\<lambda>st'. if length (rest st') < length (rest st) then repeat round k st' else None) st)
       (k st)"
  by (cases st) (simp add: repeat.simps)

lemma search_bol_later: "searchFrom (Cat Bol r) (Some p) s = None"
  by (induction s arbitrary: p) (simp_all add: matchAt_def)

lemma test_bol: "test (Cat Bol r) s = (matchAt (Cat Bol r) None s \<noteq> None)"
  by (cases s) (simp_all add: test_def search_bol_later)

lemma test_leadLowerRx: "test leadLowerRx s = (case s of [] \<Rightarrow> False | c # _ \<Rightarrow> az c)"
  by (cases s) (simp_all add: leadLowerRx_def test_bol matchAt_def)

lemma many_class_to_end:
  "(repeat (matcher (Cls p)) (matcher Eol Some) st \<noteq> None) = list_all p (rest st)"
proof (induction "rest st" arbitrary: st)
  case Nil
  then show ?case by (subst repeat_unfold) simp
next
  case (Cons c cs)
  let ?st' = "st\<lparr>prevChar := Some c, rest := cs\<rparr>"
  have ih: "(repeat (matcher (Cls p)) (matcher Eol Some) ?st' \<noteq> None) = list_all p cs"
    using Cons.hyps(1)[of ?st'] by simp
  have c: "rest st = c # cs" using Cons.hyps(2) by simp
  have "repeat (matcher (Cls p)) (matcher Eol Some) st =
        orElse
          (matcher (Cls p)
             (\<lambda>st'. if length (rest st') < length (rest st)
                    then repeat (matcher (Cls p)) (matcher Eol Some) st' else None) st)
          (matcher Eol Some st)"
    by (rule repeat_unfold)
  then show ?case using ih by (simp add: c)
qed

lemmas many_class_to_end' = many_class_to_end[unfolded not_None_eq]

lemma test_class_run:
  "test (Cat Bol (Cat (Cls p) (Cat (Many (Cls q)) Eol))) s =
     (case s of [] \<Rightarrow> False | c # cs \<Rightarrow> p c \<and> list_all q cs)"
  by (cases s) (simp_all add: test_bol matchAt_def many_class_to_end')

lemma test_camelRx: "test camelRx s = (case s of [] \<Rightarrow> False | c # cs \<Rightarrow> az c \<and> list_all alnum cs)"
  by (simp add: camelRx_def test_class_run)

lemma test_snakeRx: "test snakeRx s = (case s of [] \<Rightarrow> False | c # cs \<Rightarrow> az c \<and> list_all snakeChar cs)"
  by (simp add: snakeRx_def test_class_run)

lemma search_doubleUnderscoreRx:
  "(searchFrom doubleUnderscoreRx prev s \<noteq> None) = hasDoubleUnderscore s"
proof (induction s arbitrary: prev rule: hasDoubleUnderscore.induct)
  case (1 a b cs)
  have "(matchAt doubleUnderscoreRx prev (a # b # cs) \<noteq> None) = (a = CHR ''_'' \<and> b = CHR ''_'')"
    by (simp add: matchAt_def doubleUnderscoreRx_def Lit_def isChar_def)
  then show ?case using 1[of "Some a"]
    by (cases "matchAt doubleUnderscoreRx prev (a # b # cs)") auto
qed (simp_all add: matchAt_def doubleUnderscoreRx_def Lit_def isChar_def)

lemma test_doubleUnderscoreRx: "test doubleUnderscoreRx s = hasDoubleUnderscore s"
  by (simp only: test_def search_doubleUnderscoreRx)

lemma isCamelCase_iff: "isCamelCase s \<longleftrightarrow> (\<exists>a r. s = a # r \<and> az a \<and> list_all alnum r)"
  by (cases s) (auto simp: isCamelCase_def test_leadLowerRx test_camelRx)

lemma endsWith_single: "endsWith s [c] \<longleftrightarrow> s \<noteq> [] \<and> last s = c"
proof (cases s rule: rev_cases)
  case Nil
  then show ?thesis by (simp add: endsWith_def)
next
  case (snoc ys y)
  then show ?thesis by (auto simp: endsWith_def)
qed

lemma isSnakeCase_iff:
  "isSnakeCase s \<longleftrightarrow>
     (\<exists>a r. s = a # r \<and> az a \<and> list_all snakeChar r \<and> \<not> hasDoubleUnderscore s \<and>
            last s \<noteq> CHR ''_'')"
  by (cases s)
     (auto simp: isSnakeCase_def test_leadLowerRx test_snakeRx test_doubleUnderscoreRx
        endsWith_single)

subsection \<open>The replacements\<close>

lemma replace_lowerUpper_Nil: "replaceFrom lowerUpperRx tpl prev [] = []"
  by (simp add: replaceFrom.simps matchAt_def lowerUpperRx_def)

lemma replace_lowerUpper_single: "replaceFrom lowerUpperRx tpl prev [a] = [a]"
  by (simp add: replaceFrom.simps matchAt_def lowerUpperRx_def)

lemma replace_lowerUpper_step:
  "replaceFrom lowerUpperRx underscoreBetween prev (a # b # r) =
     (if (az a \<or> d09 a) \<and> AZ b
      then a # CHR ''_'' # b # replaceFrom lowerUpperRx underscoreBetween (Some b) r
      else a # replaceFrom lowerUpperRx underscoreBetween (Some a) (b # r))"
  by (subst replaceFrom.simps)
     (auto simp: matchAt_def lowerUpperRx_def lowerOrDigit_def underscoreBetween_def)

lemma replace_lowerUpper:
  "replaceFrom lowerUpperRx underscoreBetween prev s = insertLowerUpper s"
proof (induction s arbitrary: prev rule: insertLowerUpper.induct)
  case (1 a b r)
  show ?case
  proof (cases "(az a \<or> d09 a) \<and> AZ b")
    case True
    then have nb: "\<not> (az b \<or> d09 b)" by (auto simp: az_def AZ_def d09_def)
    have skip: "\<And>pv. replaceFrom lowerUpperRx underscoreBetween pv (b # r) =
                  b # replaceFrom lowerUpperRx underscoreBetween (Some b) r"
      using nb by (cases r) (simp_all add: replace_lowerUpper_Nil replace_lowerUpper_single replace_lowerUpper_step)
    have "insertLowerUpper (b # r) = b # insertLowerUpper r"
      using nb by (cases r) simp_all
    moreover from "1.IH"(1)[OF True, of "Some a"]
    have "b # replaceFrom lowerUpperRx underscoreBetween (Some b) r = insertLowerUpper (b # r)"
      by (simp only: skip)
    ultimately show ?thesis using True
      by (simp add: replace_lowerUpper_step)
  next
    case False
    from "1.IH"(2)[OF False, of "Some a"] show ?thesis using False
      by (auto simp: replace_lowerUpper_step)
  qed
qed (simp_all add: replace_lowerUpper_Nil replace_lowerUpper_single)

lemma replace_acronym_short:
  "replaceFrom acronymRx tpl prev [] = []"
  "replaceFrom acronymRx tpl prev [a] = [a]"
  "replaceFrom acronymRx tpl prev [a, b] = [a, b]"
  by (simp_all add: replaceFrom.simps matchAt_def acronymRx_def)

lemma replace_acronym_step:
  "replaceFrom acronymRx underscoreBetween prev (a # b # c # r) =
     (if AZ a \<and> AZ b \<and> az c
      then a # CHR ''_'' # b # c # replaceFrom acronymRx underscoreBetween (Some c) r
      else a # replaceFrom acronymRx underscoreBetween (Some a) (b # c # r))"
  by (subst replaceFrom.simps) (auto simp: matchAt_def acronymRx_def underscoreBetween_def)

lemma replace_acronym_skip:
  "\<not> AZ a \<Longrightarrow>
   replaceFrom acronymRx underscoreBetween prev (a # t) =
     a # replaceFrom acronymRx underscoreBetween (Some a) t"
  by (cases t rule: insertAcronym.cases)
     (auto simp: replace_acronym_short replace_acronym_step)

lemma insertLowerUpper_skip:
  "\<not> (az b \<or> d09 b) \<Longrightarrow> insertLowerUpper (b # r) = b # insertLowerUpper r"
  by (cases r) simp_all

lemma insertAcronym_skip: "\<not> AZ a \<Longrightarrow> insertAcronym (a # t) = a # insertAcronym t"
  by (cases t rule: insertAcronym.cases) auto

lemma replace_acronym:
  "replaceFrom acronymRx underscoreBetween prev s = insertAcronym s"
proof (induction s arbitrary: prev rule: insertAcronym.induct)
  case (1 a b c r)
  show ?case
  proof (cases "AZ a \<and> AZ b \<and> az c")
    case True
    then have nc: "\<not> AZ c" by (auto simp: az_def AZ_def)
    have e1: "\<And>pv. replaceFrom acronymRx underscoreBetween pv (b # c # r) =
                b # c # replaceFrom acronymRx underscoreBetween (Some c) r"
      using nc
      by (cases r) (simp_all add: replace_acronym_step replace_acronym_skip replace_acronym_short)
    have e2: "insertAcronym (b # c # r) = b # c # insertAcronym r"
      using nc by (cases r) (simp_all add: insertAcronym_skip)
    from "1.IH"(1)[OF True, of "Some a"]
    have "replaceFrom acronymRx underscoreBetween (Some c) r = insertAcronym r"
      by (simp only: e1 e2) simp
    then show ?thesis using True e2
      by (simp add: replace_acronym_step)
  next
    case False
    from "1.IH"(2)[OF False, of "Some a"] show ?thesis using False
      by (auto simp: replace_acronym_step)
  qed
qed (simp_all add: replace_acronym_short)

lemma camelToSnake_windows: "camelToSnake s = toLowerCase (insertAcronym (insertLowerUpper s))"
  by (simp add: camelToSnake_def replaceAll_def replace_lowerUpper replace_acronym toLowerCase_def)

lemma insertLowerUpper_Cons: "\<exists>t. insertLowerUpper (b # r) = b # t"
  by (cases r) simp_all

lemma insertAcronym_pair: "\<not> AZ b \<Longrightarrow> insertAcronym (a # b # t) = a # insertAcronym (b # t)"
  by (cases t) simp_all

lemma passes_insgo: "insertAcronym (insertLowerUpper (a # r)) = a # insgo a r"
proof (induction r arbitrary: a)
  case Nil
  show ?case by simp
next
  case (Cons b r1)
  obtain t where t: "insertLowerUpper (b # r1) = b # t" using insertLowerUpper_Cons by blast
  have ih: "insertAcronym (b # t) = b # insgo b r1" using Cons[of b] t by simp
  show ?case
  proof (cases "(az a \<or> d09 a) \<and> AZ b")
    case True
    then have na: "\<not> AZ a" by (auto simp: az_def AZ_def d09_def)
    have "insertLowerUpper (a # b # r1) = a # CHR ''_'' # b # t" using True t by simp
    moreover have "insertAcronym (a # CHR ''_'' # b # t) = a # CHR ''_'' # insertAcronym (b # t)"
      using na by (simp add: insertAcronym_skip not_class_underscore)
    moreover have "bnd a b r1" using True by (simp add: bnd_def)
    ultimately show ?thesis using ih by simp
  next
    case F1: False
    then have lu: "insertLowerUpper (a # b # r1) = a # b # t" using t by simp
    show ?thesis
    proof (cases "AZ a \<and> AZ b")
      case True
      then have nb: "\<not> (az b \<or> d09 b)" by (auto simp: az_def AZ_def d09_def)
      have t': "t = insertLowerUpper r1" using t insertLowerUpper_skip[OF nb, of r1] by simp
      show ?thesis
      proof (cases r1)
        case Nil
        then have "t = []" using t' by simp
        moreover have "\<not> bnd a b r1" using F1 Nil by (auto simp add: bnd_def)
        ultimately show ?thesis using lu ih by simp
      next
        case (Cons c r2)
        obtain t2 where t2: "insertLowerUpper (c # r2) = c # t2" using insertLowerUpper_Cons by blast
        then have tt: "t = c # t2" using t' Cons by simp
        have b: "bnd a b r1 = az c" using True F1 Cons by (auto simp: bnd_def az_def AZ_def d09_def)
        have "insertAcronym (a # b # c # t2) = (if az c then a # CHR ''_'' # insertAcronym (b # c # t2) else a # insertAcronym (b # c # t2))"
          using True by simp
        then show ?thesis using lu ih b unfolding tt by simp
      qed
    next
      case False
      have nb: "\<not> bnd a b r1" using False F1 by (auto simp add: bnd_def)
      have "insertAcronym (a # b # t) = a # insertAcronym (b # t)"
      proof (cases "AZ a")
        case True
        then show ?thesis using False by (simp add: insertAcronym_pair)
      next
        case False
        then show ?thesis by (simp add: insertAcronym_skip)
      qed
      then show ?thesis using lu ih nb by simp
    qed
  qed
qed

lemma camelToSnake_insgo: "camelToSnake (a # r) = toLowerCase (a # insgo a r)"
  by (simp only: camelToSnake_windows passes_insgo)

section \<open>Removing the underscores\<close>

lemma upperAscii_units: "az c \<or> d09 c \<Longrightarrow> fromUnits (toUpperCase [c]) = [upperAscii c]"
  by (auto simp: fromUnits_def toUpperCase_def upperUnits_def upperChar_def upperAscii_def
        az_def d09_def code_def)

lemma replace_underscore_short:
  "replaceFrom underscoreRx tpl prev [] = []"
  "replaceFrom underscoreRx tpl prev [a] = [a]"
  by (simp_all add: replaceFrom.simps matchAt_def underscoreRx_def Lit_def)

lemma replace_underscore_step:
  "replaceFrom underscoreRx upperOfGroup prev (u # c # r) =
     (if u = CHR ''_'' \<and> (az c \<or> d09 c)
      then upperAscii c # replaceFrom underscoreRx upperOfGroup (Some c) r
      else u # replaceFrom underscoreRx upperOfGroup (Some u) (c # r))"
  by (subst replaceFrom.simps)
     (auto simp: matchAt_def underscoreRx_def Lit_def isChar_def lowerOrDigit_def
        upperOfGroup_def upperAscii_units)

lemma replace_underscore:
  "replaceFrom underscoreRx upperOfGroup prev t = dropUnderscores t"
proof (induction t arbitrary: prev rule: dropUnderscores.induct)
  case (1 u c r)
  show ?case
  proof (cases "u = CHR ''_'' \<and> (az c \<or> d09 c)")
    case True
    from "1.IH"(1)[OF True, of "Some c"] show ?thesis using True
      by (simp add: replace_underscore_step)
  next
    case False
    from "1.IH"(2)[OF False, of "Some u"] show ?thesis using False
      by (auto simp: replace_underscore_step)
  qed
qed (simp_all add: replace_underscore_short)

lemma snakeToCamel_drop: "snakeToCamel s = dropUnderscores (toLowerCase s)"
  by (simp add: snakeToCamel_def replaceAll_def replace_underscore toLowerCase_def)

lemma dropUnderscores_skip:
  "u \<noteq> CHR ''_'' \<Longrightarrow> dropUnderscores (u # r) = u # dropUnderscores r"
  by (cases r) simp_all

lemma upperAscii_lowerChar: "AZ c \<Longrightarrow> upperAscii (lowerChar c) = c"
proof -
  assume a: "AZ c"
  then have "code (upperAscii (lowerChar c)) = code c"
    by (auto simp: upperAscii_def lowerChar_def az_def AZ_def code_char_of)
  then show ?thesis by (simp add: code_def)
qed

section \<open>The way to snake case and back\<close>

lemma lowerChar_eq_underscore: "lowerChar c = CHR ''_'' \<longleftrightarrow> c = CHR ''_''"
proof
  assume h: "lowerChar c = CHR ''_''"
  show "c = CHR ''_''"
  proof (rule ccontr)
    assume n: "c \<noteq> CHR ''_''"
    with h have up: "AZ c \<or> (192 \<le> code c \<and> code c \<le> 222 \<and> code c \<noteq> 215)" and e: "char_of (code c + 32) = CHR ''_''"
      by (auto simp: lowerChar_def split: if_splits)
    from e have "code (char_of (code c + 32)) = 95" by (simp add: code_underscore)
    then have "(code c + 32) mod 256 = 95" by (simp add: code_char_of)
    with up show False by (auto simp: AZ_def)
  qed
qed (simp add: lowerChar_underscore)

lemma lowerChar_idem: "lowerChar (lowerChar c) = lowerChar c"
  by (auto simp: lowerChar_def AZ_def code_char_of)

lemma alnum_lowerChar_not_AZ: "alnum b \<Longrightarrow> \<not> AZ (lowerChar b)"
  by (auto simp: alnum_def lowerChar_def az_def AZ_def d09_def code_char_of)

lemma alnum_lowerChar_ld: "alnum b \<Longrightarrow> az (lowerChar b) \<or> d09 (lowerChar b)"
  by (auto simp: alnum_def lowerChar_def az_def AZ_def d09_def code_char_of)

lemma alnum_lowerChar_not_underscore: "alnum b \<Longrightarrow> lowerChar b \<noteq> CHR ''_''"
  by (auto simp: lowerChar_eq_underscore alnum_def not_class_underscore)

lemma bnd_AZ: "bnd p b r \<Longrightarrow> AZ b"
  by (auto simp: bnd_def)

lemma unsnake_insgo:
  "list_all alnum r \<Longrightarrow> dropUnderscores (map lowerChar (insgo a r)) = recase a r"
proof (induction r arbitrary: a)
  case Nil
  show ?case by simp
next
  case (Cons b r1)
  then have ih: "dropUnderscores (map lowerChar (insgo b r1)) = recase b r1"
    and ab: "alnum b" by simp_all
  show ?case
  proof (cases "bnd a b r1")
    case True
    then have "AZ b" by (rule bnd_AZ)
    then show ?thesis using True ih
      by (simp add: lowerChar_underscore lowerChar_AZ upperAscii_lowerChar)
  next
    case False
    then show ?thesis using ih alnum_lowerChar_not_underscore[OF ab]
      by (simp add: dropUnderscores_skip)
  qed
qed

lemma bnd_recase:
  assumes "alnum p" "alnum b" "list_all alnum r1" "q = p \<or> q = lowerChar p"
  shows "bnd q (if bnd p b r1 then b else lowerChar b) (recase b r1) = bnd p b r1"
proof (cases "bnd p b r1")
  case True
  then have b: "AZ b" by (rule bnd_AZ)
  show ?thesis
  proof (cases "AZ p")
    case False
    then have "az p \<or> d09 p" using assms(1) by (simp add: alnum_def)
    then have "az q \<or> d09 q" using assms(4) by (auto simp: lowerChar_az lowerChar_d09)
    then show ?thesis using True b by (simp add: bnd_def)
  next
    case Tp: True
    then have "\<not> (az p \<or> d09 p)" by (auto simp: az_def AZ_def d09_def)
    with True obtain c r2 where r1: "r1 = c # r2" and c: "az c"
      by (auto simp: bnd_def split: list.splits)
    have "\<not> bnd b c r2" using c by (auto simp: bnd_def az_def AZ_def)
    then have rc: "recase b r1 = c # recase c r2" using r1 c by (simp add: lowerChar_az)
    show ?thesis
    proof (cases "q = p")
      case True
      then show ?thesis using \<open>bnd p b r1\<close> Tp b c rc by (simp add: bnd_def)
    next
      case False
      then have "q = lowerChar p" using assms(4) by simp
      then have "az q" using Tp by (simp add: lowerChar_AZ)
      then show ?thesis using True b by (simp add: bnd_def)
    qed
  qed
next
  case False
  have "\<not> AZ (lowerChar b)" using assms(2) by (rule alnum_lowerChar_not_AZ)
  then show ?thesis using False by (auto simp: bnd_def)
qed

lemma insgo_recase:
  "alnum p \<Longrightarrow> list_all alnum r \<Longrightarrow> q = p \<or> q = lowerChar p \<Longrightarrow>
   map lowerChar (insgo q (recase p r)) = map lowerChar (insgo p r)"
proof (induction r arbitrary: p q)
  case Nil
  show ?case by simp
next
  case (Cons b r1)
  let ?b' = "if bnd p b r1 then b else lowerChar b"
  have ab: "alnum b" and ar: "list_all alnum r1" using Cons.prems by simp_all
  have k: "bnd q ?b' (recase b r1) = bnd p b r1"
    using Cons.prems(1) ab ar Cons.prems(3) by (rule bnd_recase)
  have ih: "map lowerChar (insgo ?b' (recase b r1)) = map lowerChar (insgo b r1)"
    by (rule Cons.IH[OF ab ar]) simp
  have lb: "lowerChar ?b' = lowerChar b" by (simp add: lowerChar_idem)
  show ?case
  proof (cases "bnd p b r1")
    case True
    then show ?thesis using k ih by (simp add: lowerChar_underscore)
  next
    case False
    then show ?thesis using k ih by (simp add: lowerChar_idem)
  qed
qed

lemma camelToSnake_insgo': "camelToSnake (a # r) = lowerChar a # map lowerChar (insgo a r)"
  by (simp add: camelToSnake_insgo toLowerCase_def)

lemma roundtrip_alnum:
  assumes "alnum a" "list_all alnum r"
  shows "camelToSnake (snakeToCamel (camelToSnake (a # r))) = camelToSnake (a # r)"
proof -
  let ?la = "lowerChar a"
  have nu: "?la \<noteq> CHR ''_''" using assms(1) by (rule alnum_lowerChar_not_underscore)
  have "snakeToCamel (camelToSnake (a # r)) =
        dropUnderscores (?la # map lowerChar (insgo a r))"
    by (simp add: camelToSnake_insgo' snakeToCamel_drop toLowerCase_def lowerChar_idem comp_def)
  also have "\<dots> = ?la # recase a r"
    using nu assms(2) by (simp add: dropUnderscores_skip unsnake_insgo)
  finally have "camelToSnake (snakeToCamel (camelToSnake (a # r))) =
        ?la # map lowerChar (insgo ?la (recase a r))"
    by (simp add: camelToSnake_insgo' lowerChar_idem)
  also have "map lowerChar (insgo ?la (recase a r)) = map lowerChar (insgo a r)"
    using assms by (intro insgo_recase) simp_all
  finally show ?thesis by (simp add: camelToSnake_insgo')
qed

lemma snakeChar_lower_insgo:
  "list_all alnum r \<Longrightarrow> list_all snakeChar (map lowerChar (insgo a r))"
proof (induction r arbitrary: a)
  case (Cons b r1)
  then show ?case using alnum_lowerChar_ld[of b]
    by (auto simp: snakeChar_def lowerChar_underscore)
qed simp

lemma no_double_underscore_insgo:
  "list_all alnum r \<Longrightarrow> x \<noteq> CHR ''_'' \<Longrightarrow>
   \<not> hasDoubleUnderscore (x # map lowerChar (insgo a r))"
proof (induction r arbitrary: a x)
  case (Cons b r1)
  then show ?case using alnum_lowerChar_not_underscore[of b]
    by (auto simp: lowerChar_underscore)
qed simp

lemma last_insgo:
  "list_all alnum r \<Longrightarrow> x \<noteq> CHR ''_'' \<Longrightarrow> last (x # map lowerChar (insgo a r)) \<noteq> CHR ''_''"
proof (induction r arbitrary: a x)
  case (Cons b r1)
  then show ?case using alnum_lowerChar_not_underscore[of b]
    by (auto simp: lowerChar_underscore)
qed simp

lemma camel_to_snake_domain:
  assumes "isCamelCase s" shows "isSnakeCase (camelToSnake s)"
proof -
  from assms obtain a r where s: "s = a # r" and a: "az a" and r: "list_all alnum r"
    by (auto simp: isCamelCase_iff)
  have la: "lowerChar a = a" using a by (rule lowerChar_az)
  have nu: "a \<noteq> CHR ''_''" using a not_class_underscore by auto
  have "list_all snakeChar (map lowerChar (insgo a r))"
    using r by (rule snakeChar_lower_insgo)
  moreover have "\<not> hasDoubleUnderscore (a # map lowerChar (insgo a r))"
    using r nu by (rule no_double_underscore_insgo)
  moreover have "last (a # map lowerChar (insgo a r)) \<noteq> CHR ''_''"
    using r nu by (rule last_insgo)
  ultimately show ?thesis using a
    by (simp add: isSnakeCase_iff s camelToSnake_insgo' la)
qed

lemma snakeChar_lowerChar: "snakeChar c \<Longrightarrow> lowerChar c = c"
  by (auto simp: snakeChar_def lowerChar_az lowerChar_d09 lowerChar_underscore)

lemma upperAscii_alnum: "az c \<or> d09 c \<Longrightarrow> alnum (upperAscii c)"
  by (auto simp: upperAscii_def alnum_def az_def AZ_def d09_def code_char_of)

lemma unsnake_alnum:
  "list_all snakeChar t \<Longrightarrow> \<not> hasDoubleUnderscore t \<Longrightarrow> t = [] \<or> last t \<noteq> CHR ''_'' \<Longrightarrow>
   list_all alnum (dropUnderscores t)"
proof (induction t rule: hasDoubleUnderscore.induct)
  case (1 a b cs)
  have ih: "list_all alnum (dropUnderscores (b # cs))" using 1 by auto
  show ?case
  proof (cases "a = CHR ''_''")
    case True
    with 1 have b: "az b \<or> d09 b" and nb: "b \<noteq> CHR ''_''" by (auto simp: snakeChar_def)
    from ih have "list_all alnum (dropUnderscores cs)"
      using nb by (simp add: dropUnderscores_skip)
    then show ?thesis using True b upperAscii_alnum[OF b] by simp
  next
    case False
    moreover have "alnum a" using False 1(2) by (auto simp: snakeChar_def alnum_def)
    ultimately show ?thesis using ih by (simp add: dropUnderscores_skip)
  qed
qed (auto simp: snakeChar_def alnum_def)

lemma snake_to_camel_domain:
  assumes "isSnakeCase s" shows "isCamelCase (snakeToCamel s)"
proof -
  from assms obtain a r where s: "s = a # r" and a: "az a" and r: "list_all snakeChar r"
    and nd: "\<not> hasDoubleUnderscore s" and ne: "last s \<noteq> CHR ''_''"
    by (auto simp: isSnakeCase_iff)
  have sc: "list_all snakeChar s" using s a r by (simp add: snakeChar_def)
  have low: "map lowerChar s = s" using sc by (induction s) (simp_all add: snakeChar_lowerChar)
  have nu: "a \<noteq> CHR ''_''" using a not_class_underscore by auto
  have "list_all alnum (dropUnderscores s)" using sc nd ne by (intro unsnake_alnum) simp_all
  then have "list_all alnum (dropUnderscores r)"
    using nu by (simp add: s dropUnderscores_skip)
  moreover have "snakeToCamel s = a # dropUnderscores r"
    using low nu by (simp add: snakeToCamel_drop toLowerCase_def s dropUnderscores_skip)
  ultimately show ?thesis using a by (simp add: isCamelCase_iff)
qed

section \<open>The loop of parsePipe\<close>

lemma pipe_fold_closed:
  "\<not> inSqlBlock st \<Longrightarrow> \<forall>l\<in>set ls. \<not> startsSql l \<Longrightarrow>
   foldl (pipeLine fn) st ls = st\<lparr>pipeLineNumber := pipeLineNumber st + length ls\<rparr>"
proof (induction ls arbitrary: st)
  case Nil
  show ?case by simp
next
  case (Cons l ls)
  have step: "pipeLine fn st l = st\<lparr>pipeLineNumber := pipeLineNumber st + 1\<rparr>"
    using Cons.prems by (simp add: pipeLine_def Let_def)
  have "foldl (pipeLine fn) (st\<lparr>pipeLineNumber := pipeLineNumber st + 1\<rparr>) ls =
        st\<lparr>pipeLineNumber := pipeLineNumber st + 1\<rparr>\<lparr>pipeLineNumber := pipeLineNumber (st\<lparr>pipeLineNumber := pipeLineNumber st + 1\<rparr>) + length ls\<rparr>"
    using Cons.prems by (intro Cons.IH) simp_all
  then show ?case using step by simp
qed

lemma pipe_fold_open:
  "inSqlBlock st \<Longrightarrow>
   foldl (pipeLine fn) st ls =
     st\<lparr>pipeLineNumber := pipeLineNumber st + length ls,
        pipeIssues := pipeIssues st @
          concat (map (\<lambda>(i, x). scanPipeLine fn i x) (enumerate (Suc (pipeLineNumber st)) ls))\<rparr>"
proof (induction ls arbitrary: st)
  case Nil
  show ?case by simp
next
  case (Cons l ls)
  let ?st' = "st\<lparr>pipeLineNumber := Suc (pipeLineNumber st),
                 pipeIssues := pipeIssues st @ scanPipeLine fn (Suc (pipeLineNumber st)) l\<rparr>"
  have step: "pipeLine fn st l = ?st'"
    using Cons.prems by (simp add: pipeLine_def Let_def)
  have "inSqlBlock ?st'" using Cons.prems by simp
  from Cons.IH[OF this] show ?case using step by simp
qed

lemma pipe_fold_first:
  "\<not> inSqlBlock st \<Longrightarrow> startsSql l \<Longrightarrow>
   pipeLine fn st l =
     st\<lparr>pipeLineNumber := Suc (pipeLineNumber st), inSqlBlock := True,
        pipeIssues := pipeIssues st @ scanPipeLine fn (Suc (pipeLineNumber st)) l\<rparr>"
  by (simp add: pipeLine_def Let_def)

section \<open>The character classes, as the specification reads them\<close>

lemma range_chars:
  assumes "lo \<le> code c" "code c < hi"
  shows "c \<in> set (map char_of [lo..<hi])"
proof -
  have "code c \<in> set [lo..<hi]" using assms by simp
  then have "char_of (code c) \<in> char_of ` set [lo..<hi]" by (rule imageI)
  moreover have "char_of (code c) = c" by (simp add: code_def)
  ultimately show ?thesis by (simp only: set_map)
qed

lemma lowerLetters_eq: "map char_of [97..<123::nat] = lowerLetters"
  unfolding lowerLetters_def by code_simp

lemma upperLetters_eq: "map char_of [65..<91::nat] = upperLetters"
  unfolding upperLetters_def by code_simp

lemma digits_eq: "map char_of [48..<58::nat] = digits"
  unfolding digits_def by code_simp

lemma az_iff: "az c \<longleftrightarrow> c \<in> set lowerLetters"
proof
  assume "az c"
  then have "c \<in> set (map char_of [97..<123])" by (intro range_chars) (simp_all add: az_def)
  then show "c \<in> set lowerLetters" by (simp only: lowerLetters_eq)
next
  assume "c \<in> set lowerLetters"
  then show "az c" by (auto simp: lowerLetters_def az_def code_def)
qed

lemma AZ_iff: "AZ c \<longleftrightarrow> c \<in> set upperLetters"
proof
  assume "AZ c"
  then have "c \<in> set (map char_of [65..<91])" by (intro range_chars) (simp_all add: AZ_def)
  then show "c \<in> set upperLetters" by (simp only: upperLetters_eq)
next
  assume "c \<in> set upperLetters"
  then show "AZ c" by (auto simp: upperLetters_def AZ_def code_def)
qed

lemma d09_iff: "d09 c \<longleftrightarrow> c \<in> set digits"
proof
  assume "d09 c"
  then have "c \<in> set (map char_of [48..<58])" by (intro range_chars) (simp_all add: d09_def)
  then show "c \<in> set digits" by (simp only: digits_eq)
next
  assume "c \<in> set digits"
  then show "d09 c" by (auto simp: digits_def d09_def code_def)
qed

lemma hasDoubleUnderscore_iff:
  "hasDoubleUnderscore s \<longleftrightarrow>
     (\<exists>i. Suc i < length s \<and> s ! i = CHR ''_'' \<and> s ! Suc i = CHR ''_'')"
proof (induction s rule: hasDoubleUnderscore.induct)
  case (1 a b cs)
  show ?case
  proof
    assume "hasDoubleUnderscore (a # b # cs)"
    then consider "a = CHR ''_'' \<and> b = CHR ''_''" | "hasDoubleUnderscore (b # cs)" by auto
    then show "\<exists>i. Suc i < length (a # b # cs) \<and> (a # b # cs) ! i = CHR ''_'' \<and> (a # b # cs) ! Suc i = CHR ''_''"
    proof cases
      case 1
      then show ?thesis by (intro exI[of _ 0]) simp
    next
      case 2
      then obtain i where "Suc i < length (b # cs)" "(b # cs) ! i = CHR ''_''" "(b # cs) ! Suc i = CHR ''_''"
        using "1.IH" by blast
      then show ?thesis by (intro exI[of _ "Suc i"]) simp
    qed
  next
    assume "\<exists>i. Suc i < length (a # b # cs) \<and> (a # b # cs) ! i = CHR ''_'' \<and> (a # b # cs) ! Suc i = CHR ''_''"
    then obtain i where i: "Suc i < length (a # b # cs)" "(a # b # cs) ! i = CHR ''_''" "(a # b # cs) ! Suc i = CHR ''_''"
      by blast
    show "hasDoubleUnderscore (a # b # cs)"
    proof (cases i)
      case 0
      then show ?thesis using i by simp
    next
      case (Suc j)
      then have "Suc j < length (b # cs) \<and> (b # cs) ! j = CHR ''_'' \<and> (b # cs) ! Suc j = CHR ''_''"
        using i by simp
      then have "hasDoubleUnderscore (b # cs)" using "1.IH" by blast
      then show ?thesis by simp
    qed
  qed
qed simp_all

section \<open>Single lines of a pipe file\<close>

lemma parsePipe_single_line:
  assumes "split content newline = [content]" "startsSql content"
  shows "parsePipe content fn = scanPipeLine fn 1 content"
  using assms by (simp add: parsePipe_def pipe_fold_first)

lemma scanPipeLine_eval:
  assumes "map_option (\<lambda>g. g 1) (match snakeAliasRx ln) = Some a" "isSnakeCase a"
  shows "scanPipeLine fn n ln =
           concat (map (asIssues fn n) (matchAll asRx ln)) @
           [\<lparr>file = fn, line = n, column = a,
             issue = ''Alias '' @ [quote] @ a @ [quote] @
                     '' is snake_case but should be camelCase for API output'',
             severity = Error\<rparr>]"
  using assms by (auto simp: scanPipeLine_def Let_def)

lemma asIssues_clean:
  "isSnakeCase (g 1) \<Longrightarrow> isCamelCase (g 2) \<Longrightarrow> asIssues fn n g = []"
  by (simp add: asIssues_def)

lemma asIssues_alias:
  "isSnakeCase (g 1) \<Longrightarrow> \<not> isCamelCase (g 2) \<Longrightarrow> g 2 = a \<Longrightarrow>
   asIssues fn n g =
     [\<lparr>file = fn, line = n, column = a,
       issue = ''Alias '' @ [quote] @ a @ [quote] @ '' should be in camelCase for API output'',
       severity = Error\<rparr>]"
  by (simp add: asIssues_def)

lemma two_matches:
  assumes "map (\<lambda>g. (g 1, g 2)) ms = [(c1, a1), (c2, a2)]"
  obtains g1 g2 where "ms = [g1, g2]" "g1 1 = c1" "g1 2 = a1" "g2 1 = c2" "g2 2 = a2"
  using assms by (auto simp: map_eq_Cons_conv)

section \<open>The loop of parseDatasource\<close>

lemma datasource_fold_outside:
  "\<not> inSchemaSection st \<Longrightarrow> \<forall>l\<in>set ls. \<not> schemaHeader l \<Longrightarrow>
   foldl (datasourceLine fn) st ls = st\<lparr>lineNumber := lineNumber st + length ls\<rparr>"
proof (induction ls arbitrary: st)
  case Nil
  show ?case by simp
next
  case (Cons l ls)
  have step: "datasourceLine fn st l = st\<lparr>lineNumber := lineNumber st + 1\<rparr>"
    using Cons.prems by (simp add: datasourceLine_def Let_def schemaHeader_def)
  have "foldl (datasourceLine fn) (st\<lparr>lineNumber := lineNumber st + 1\<rparr>) ls =
        st\<lparr>lineNumber := lineNumber st + 1\<rparr>\<lparr>lineNumber := lineNumber (st\<lparr>lineNumber := lineNumber st + 1\<rparr>) + length ls\<rparr>"
    using Cons.prems by (intro Cons.IH) simp_all
  then show ?case using step by simp
qed

lemma datasource_header:
  "schemaHeader l \<Longrightarrow>
   datasourceLine fn st l = st\<lparr>lineNumber := lineNumber st + 1, inSchemaSection := True\<rparr>"
  by (simp add: datasourceLine_def Let_def schemaHeader_def)

lemma datasource_quiet_step:
  "quietLine l \<Longrightarrow> issues (datasourceLine fn st l) = issues st"
  by (auto simp: datasourceLine_def Let_def quietLine_def split: option.splits)

lemma datasource_fold_quiet:
  "\<forall>l\<in>set ls. quietLine l \<Longrightarrow> issues (foldl (datasourceLine fn) st ls) = issues st"
  by (induction ls arbitrary: st) (simp_all add: datasource_quiet_step)

lemma datasource_column_step:
  assumes "inSchemaSection st"
    and "\<not> startsWith (toUpperCase (trim l)) (units ''SCHEMA'')"
    and "\<not> startsWith (toUpperCase (trim l)) (units ''ENGINE'')"
    and "trim l \<noteq> []" and "\<not> startsWith (trim l) ''#''"
    and "map_option (\<lambda>g. g 1) (match columnRx (trim l)) = Some c"
  shows "datasourceLine fn st l =
           (if isSnakeCase c then st\<lparr>lineNumber := lineNumber st + 1\<rparr>
            else st\<lparr>lineNumber := lineNumber st + 1,
                   issues := issues st @
                     [\<lparr>file = fn, line = lineNumber st + 1, column = c,
                       issue = ''Column name '' @ [quote] @ c @ [quote] @
                               '' should be in snake_case'',
                       severity = Error\<rparr>]\<rparr>)"
proof -
  from assms(6) obtain g where "match columnRx (trim l) = Some g" "g 1 = c" by auto
  then show ?thesis using assms(1-5) by (simp add: datasourceLine_def Let_def)
qed

lemma line_user_id:
  assumes "inSchemaSection st" "trim l = ''user_id String,''"
  shows "datasourceLine fn st l = st\<lparr>lineNumber := lineNumber st + 1\<rparr>"
proof -
  have a: "\<not> startsWith (toUpperCase ''user_id String,'') (units ''SCHEMA'')" by code_simp
  have b: "\<not> startsWith (toUpperCase ''user_id String,'') (units ''ENGINE'')" by code_simp
  have c: "\<not> startsWith ''user_id String,'' ''#''" by code_simp
  have d: "map_option (\<lambda>g. g 1) (match columnRx ''user_id String,'') = Some ''user_id''" by code_simp
  have e: "isSnakeCase ''user_id''" by code_simp
  have "datasourceLine fn st l =
           (if isSnakeCase ''user_id'' then st\<lparr>lineNumber := lineNumber st + 1\<rparr>
            else st\<lparr>lineNumber := lineNumber st + 1,
                   issues := issues st @
                     [\<lparr>file = fn, line = lineNumber st + 1, column = ''user_id'',
                       issue = ''Column name '' @ [quote] @ ''user_id'' @ [quote] @
                               '' should be in snake_case'',
                       severity = Error\<rparr>]\<rparr>)"
    by (rule datasource_column_step) (simp_all only: assms a b c d not_False_eq_True list.distinct)
  then show ?thesis by (simp only: e if_True)
qed

lemma line_session_id:
  assumes "inSchemaSection st" "trim l = ''session_id String''"
  shows "datasourceLine fn st l = st\<lparr>lineNumber := lineNumber st + 1\<rparr>"
proof -
  have a: "\<not> startsWith (toUpperCase ''session_id String'') (units ''SCHEMA'')" by code_simp
  have b: "\<not> startsWith (toUpperCase ''session_id String'') (units ''ENGINE'')" by code_simp
  have c: "\<not> startsWith ''session_id String'' ''#''" by code_simp
  have d: "map_option (\<lambda>g. g 1) (match columnRx ''session_id String'') = Some ''session_id''" by code_simp
  have e: "isSnakeCase ''session_id''" by code_simp
  have "datasourceLine fn st l =
           (if isSnakeCase ''session_id'' then st\<lparr>lineNumber := lineNumber st + 1\<rparr>
            else st\<lparr>lineNumber := lineNumber st + 1,
                   issues := issues st @
                     [\<lparr>file = fn, line = lineNumber st + 1, column = ''session_id'',
                       issue = ''Column name '' @ [quote] @ ''session_id'' @ [quote] @
                               '' should be in snake_case'',
                       severity = Error\<rparr>]\<rparr>)"
    by (rule datasource_column_step) (simp_all only: assms a b c d not_False_eq_True list.distinct)
  then show ?thesis by (simp only: e if_True)
qed

lemma line_userId:
  assumes "inSchemaSection st" "trim l = ''userId String,''"
  shows "datasourceLine fn st l =
           st\<lparr>lineNumber := lineNumber st + 1,
              issues := issues st @
                [\<lparr>file = fn, line = lineNumber st + 1, column = ''userId'',
                  issue = ''Column name '' @ [quote] @ ''userId'' @ [quote] @
                          '' should be in snake_case'',
                  severity = Error\<rparr>]\<rparr>"
proof -
  have a: "\<not> startsWith (toUpperCase ''userId String,'') (units ''SCHEMA'')" by code_simp
  have b: "\<not> startsWith (toUpperCase ''userId String,'') (units ''ENGINE'')" by code_simp
  have c: "\<not> startsWith ''userId String,'' ''#''" by code_simp
  have d: "map_option (\<lambda>g. g 1) (match columnRx ''userId String,'') = Some ''userId''" by code_simp
  have e: "\<not> isSnakeCase ''userId''" by code_simp
  have "datasourceLine fn st l =
           (if isSnakeCase ''userId'' then st\<lparr>lineNumber := lineNumber st + 1\<rparr>
            else st\<lparr>lineNumber := lineNumber st + 1,
                   issues := issues st @
                     [\<lparr>file = fn, line = lineNumber st + 1, column = ''userId'',
                       issue = ''Column name '' @ [quote] @ ''userId'' @ [quote] @
                               '' should be in snake_case'',
                       severity = Error\<rparr>]\<rparr>)"
    by (rule datasource_column_step) (simp_all only: assms a b c d not_False_eq_True list.distinct)
  then show ?thesis using e by (simp only: if_False)
qed

lemma includes_append: "includes' (p @ s) s"
  by (induction p) (simp_all add: startsWith_def, cases s, simp_all add: startsWith_def)

section \<open>The claims\<close>

subsection \<open>caseUtils.ts\<close>

text \<open>
  Claim C1. For every string, \<open>camelToSnake\<close> is the two-rule boundary algorithm: an
  underscore between every lowercase-or-digit character and an uppercase character after
  it, then an underscore between every uppercase character and an uppercase-then-lowercase
  pair after it, then the whole result in lower case. Lowercase, uppercase and digit are
  the ASCII classes of the patterns. The seven examples of the claim hold as well.
\<close>

theorem camelToSnake_two_rule_boundary:
  "camelToSnake s = twoRuleBoundary s \<and>
   camelToSnake ''userId'' = ''user_id'' \<and>
   camelToSnake ''userID'' = ''user_id'' \<and>
   camelToSnake ''userIDToken'' = ''user_id_token'' \<and>
   camelToSnake ''HTTPResponse'' = ''http_response'' \<and>
   camelToSnake ''parseHTMLString'' = ''parse_html_string'' \<and>
   camelToSnake ''user123Id'' = ''user123_id'' \<and>
   camelToSnake '''' = ''''"
proof (intro conjI)
  show "camelToSnake s = twoRuleBoundary s"
    by (simp add: camelToSnake_windows twoRuleBoundary_def)
  show "camelToSnake ''userId'' = ''user_id''" by code_simp
  show "camelToSnake ''userID'' = ''user_id''" by code_simp
  show "camelToSnake ''userIDToken'' = ''user_id_token''" by code_simp
  show "camelToSnake ''HTTPResponse'' = ''http_response''" by code_simp
  show "camelToSnake ''parseHTMLString'' = ''parse_html_string''" by code_simp
  show "camelToSnake ''user123Id'' = ''user123_id''" by code_simp
  show "camelToSnake '''' = ''''" by code_simp
qed

text \<open>
  The theorem of C1 at a name with two acronyms and a digit.
\<close>

theorem camelToSnake_two_rule_boundary_witness:
  "camelToSnake ''getURLForID2Next'' = ''get_url_for_id2_next''"
proof -
  have "twoRuleBoundary ''getURLForID2Next'' = ''get_url_for_id2_next''" by code_simp
  then show ?thesis using camelToSnake_two_rule_boundary[of "''getURLForID2Next''"] by simp
qed

text \<open>
  Claim C2. For every string that \<open>isCamelCase\<close> accepts, going to snake case, back to
  camel case and to snake case again gives the snake case of the first step. The way back
  need not give the string itself: \<open>userID\<close> comes back as \<open>userId\<close>.
\<close>

theorem camelToSnake_stable_after_roundtrip:
  "(isCamelCase s \<longrightarrow> camelToSnake (snakeToCamel (camelToSnake s)) = camelToSnake s) \<and>
   (isCamelCase ''userID'' \<and> snakeToCamel (camelToSnake ''userID'') = ''userId'')"
proof (intro conjI impI)
  assume "isCamelCase s"
  then show "camelToSnake (snakeToCamel (camelToSnake s)) = camelToSnake s"
    by (auto simp: isCamelCase_iff alnum_def intro!: roundtrip_alnum)
next
  show "isCamelCase ''userID''" by code_simp
  show "snakeToCamel (camelToSnake ''userID'') = ''userId''" by code_simp
qed

text \<open>
  The theorem of C2 at \<open>parseHTMLString\<close>, which \<open>isCamelCase\<close> accepts.
\<close>

theorem camelToSnake_stable_after_roundtrip_witness:
  "camelToSnake (snakeToCamel (camelToSnake ''parseHTMLString'')) = ''parse_html_string''"
proof -
  have a: "isCamelCase ''parseHTMLString''" by code_simp
  have b: "camelToSnake ''parseHTMLString'' = ''parse_html_string''" by code_simp
  show ?thesis
    using camelToSnake_stable_after_roundtrip[of "''parseHTMLString''"] a b by simp
qed

text \<open>
  Claim C5. \<open>isCamelCase s\<close> holds exactly when \<open>s\<close> is not empty, its first
  character is a lowercase ASCII letter and every character is an ASCII letter or an ASCII
  digit; so an uppercase letter may stand anywhere but first, and an underscore, a hyphen,
  a space or a character outside ASCII nowhere.
\<close>

theorem isCamelCase_characterisation:
  "isCamelCase s \<longleftrightarrow>
     s \<noteq> [] \<and> hd s \<in> set lowerLetters \<and>
     (\<forall>c\<in>set s. c \<in> set lowerLetters \<union> set upperLetters \<union> set digits)"
proof (cases s)
  case Nil
  then show ?thesis by (simp add: isCamelCase_iff)
next
  case (Cons a r)
  have "isCamelCase (a # r) \<longleftrightarrow> az a \<and> (\<forall>c\<in>set r. az c \<or> AZ c \<or> d09 c)"
    by (simp add: isCamelCase_iff list_all_iff alnum_def)
  then show ?thesis unfolding Cons by (auto simp: az_iff AZ_iff d09_iff)
qed

text \<open>
  The theorem of C5 at \<open>userId\<close>, which meets the three conditions, and at
  \<open>UserId\<close>, whose first character is not a lowercase letter.
\<close>

theorem isCamelCase_characterisation_witness:
  "isCamelCase ''userId'' \<and> \<not> isCamelCase ''UserId''"
proof -
  have a: "''userId'' \<noteq> [] \<and> hd ''userId'' \<in> set lowerLetters \<and>
     (\<forall>c\<in>set ''userId''. c \<in> set lowerLetters \<union> set upperLetters \<union> set digits)"
    by (simp add: lowerLetters_def upperLetters_def digits_def)
  have b: "hd ''UserId'' \<notin> set lowerLetters" by (simp add: lowerLetters_def)
  show ?thesis
    using isCamelCase_characterisation[of "''userId''"] isCamelCase_characterisation[of "''UserId''"] a b
    by blast
qed

text \<open>
  Claim C6. \<open>isSnakeCase s\<close> holds exactly when \<open>s\<close> is not empty, starts with a
  lowercase ASCII letter, has only lowercase ASCII letters, ASCII digits and underscores,
  has no two underscores in a row and does not end with an underscore; the empty string is
  not snake case.
\<close>

theorem isSnakeCase_characterisation:
  "(isSnakeCase s \<longleftrightarrow>
      s \<noteq> [] \<and> hd s \<in> set lowerLetters \<and>
      (\<forall>c\<in>set s. c \<in> set lowerLetters \<union> set digits \<union> {CHR ''_''}) \<and>
      \<not> (\<exists>i. Suc i < length s \<and> s ! i = CHR ''_'' \<and> s ! Suc i = CHR ''_'') \<and>
      last s \<noteq> CHR ''_'') \<and>
   \<not> isSnakeCase ''''"
proof
  show "isSnakeCase s \<longleftrightarrow>
      s \<noteq> [] \<and> hd s \<in> set lowerLetters \<and>
      (\<forall>c\<in>set s. c \<in> set lowerLetters \<union> set digits \<union> {CHR ''_''}) \<and>
      \<not> (\<exists>i. Suc i < length s \<and> s ! i = CHR ''_'' \<and> s ! Suc i = CHR ''_'') \<and>
      last s \<noteq> CHR ''_''"
  proof (cases s)
    case Nil
    then show ?thesis by (simp add: isSnakeCase_iff)
  next
    case (Cons a r)
    have "isSnakeCase (a # r) \<longleftrightarrow>
          az a \<and> list_all (\<lambda>x. az x \<or> d09 x \<or> x = CHR ''_'') r \<and>
          \<not> hasDoubleUnderscore (a # r) \<and> last (a # r) \<noteq> CHR ''_''"
      by (simp add: isSnakeCase_iff list_all_iff snakeChar_def)
    also have "\<dots> \<longleftrightarrow>
          az a \<and> (\<forall>c\<in>set (a # r). c \<in> set lowerLetters \<union> set digits \<union> {CHR ''_''}) \<and>
          \<not> hasDoubleUnderscore (a # r) \<and> last (a # r) \<noteq> CHR ''_''"
      by (auto simp: list_all_iff az_iff d09_iff)
    finally show ?thesis unfolding Cons
      by (simp only: hasDoubleUnderscore_iff az_iff list.sel) blast
  qed
  show "\<not> isSnakeCase ''''" by (simp add: isSnakeCase_iff)
qed

text \<open>
  The theorem of C6 at \<open>user_id\<close>, at \<open>user__id\<close> (two underscores in a row) and at
  \<open>user_id_\<close> (an underscore at the end).
\<close>

theorem isSnakeCase_characterisation_witness:
  "isSnakeCase ''user_id'' \<and> \<not> isSnakeCase ''user__id'' \<and> \<not> isSnakeCase ''user_id_''"
proof -
  have a: "''user_id'' \<noteq> [] \<and> hd ''user_id'' \<in> set lowerLetters \<and>
      (\<forall>c\<in>set ''user_id''. c \<in> set lowerLetters \<union> set digits \<union> {CHR ''_''}) \<and>
      last ''user_id'' \<noteq> CHR ''_''"
    by (simp add: lowerLetters_def digits_def)
  have a': "\<not> (\<exists>i. Suc i < length ''user_id'' \<and> ''user_id'' ! i = CHR ''_'' \<and> ''user_id'' ! Suc i = CHR ''_'')"
  proof
    assume "\<exists>i. Suc i < length ''user_id'' \<and> ''user_id'' ! i = CHR ''_'' \<and> ''user_id'' ! Suc i = CHR ''_''"
    then obtain i where "Suc i < length ''user_id''" "''user_id'' ! i = CHR ''_''" "''user_id'' ! Suc i = CHR ''_''"
      by blast
    then show False by (auto simp: less_Suc_eq nth_Cons')
  qed
  have b: "\<exists>i. Suc i < length ''user__id'' \<and> ''user__id'' ! i = CHR ''_'' \<and> ''user__id'' ! Suc i = CHR ''_''"
    by (intro exI[of _ 4]) simp
  have c: "last ''user_id_'' = CHR ''_''" by simp
  show ?thesis
    using isSnakeCase_characterisation[of "''user_id''"] isSnakeCase_characterisation[of "''user__id''"]
      isSnakeCase_characterisation[of "''user_id_''"] a a' b c
    by blast
qed

text \<open>
  Claim C7, as stated, fails: \<open>snakeToCamel\<close> does not remove every underscore that is
  followed by a character. In \<open>a_-b\<close> the underscore is followed by a hyphen and stays,
  where the claim's conversion removes it.
\<close>

theorem snakeToCamel_counterexample:
  "snakeToCamel ''a_-b'' = ''a_-b'' \<and> snakeToCamelClaimed ''a_-b'' = ''a-b'' \<and>
   snakeToCamel ''a_-b'' \<noteq> snakeToCamelClaimed ''a_-b''"
proof -
  have a: "snakeToCamel ''a_-b'' = ''a_-b''" by code_simp
  have b: "snakeToCamelClaimed ''a_-b'' = ''a-b''" by code_simp
  show ?thesis by (simp only: a b) simp
qed

text \<open>
  Claim C7, amended. \<open>snakeToCamel\<close> lowercases the whole input and then, from left to
  right, removes every underscore that is followed by a lowercase ASCII letter or an ASCII
  digit and puts that letter in upper case (a digit stays as it is); every other
  underscore is kept. The three examples of the claim hold.
\<close>

theorem snakeToCamel_underscores:
  "snakeToCamel s = dropUnderscores (toLowerCase s) \<and>
   snakeToCamel ''user_id'' = ''userId'' \<and>
   snakeToCamel ''user_123_id'' = ''user123Id'' \<and>
   snakeToCamel '''' = ''''"
proof (intro conjI)
  show "snakeToCamel s = dropUnderscores (toLowerCase s)"
    by (rule snakeToCamel_drop)
  show "snakeToCamel ''user_id'' = ''userId''" by code_simp
  show "snakeToCamel ''user_123_id'' = ''user123Id''" by code_simp
  show "snakeToCamel '''' = ''''" by code_simp
qed

text \<open>
  The theorem of C7 at a name with a digit after an underscore, and at a string with an
  underscore that is kept.
\<close>

theorem snakeToCamel_underscores_witness:
  "snakeToCamel ''created_at_2'' = ''createdAt2'' \<and> snakeToCamel ''A_-_b'' = ''a_-B''"
proof -
  have a: "dropUnderscores (toLowerCase ''created_at_2'') = ''createdAt2''" by code_simp
  have b: "dropUnderscores (toLowerCase ''A_-_b'') = ''a_-B''" by code_simp
  show ?thesis
    using snakeToCamel_underscores[of "''created_at_2''"] snakeToCamel_underscores[of "''A_-_b''"] a b
    by simp
qed

text \<open>
  Claim C8. \<open>validateMapping camelKey snakeValue\<close> holds exactly when
  \<open>camelToSnake camelKey\<close> is \<open>snakeValue\<close>. Neither argument is classified: a key that
  is not camel case and a value that is not snake case are accepted when the conversion
  of the one is the other. The three examples of the claim hold.
\<close>

theorem validateMapping_exact:
  "(validateMapping camelKey snakeValue \<longleftrightarrow> camelToSnake camelKey = snakeValue) \<and>
   validateMapping ''userId'' ''user_id'' \<and>
   \<not> validateMapping ''userId'' ''userid'' \<and>
   validateMapping ''userIDToken'' ''user_id_token'' \<and>
   (\<not> isCamelCase ''HTTPResponse'' \<and> validateMapping ''HTTPResponse'' ''http_response'') \<and>
   (\<not> isSnakeCase ''user__id'' \<and> validateMapping ''user__Id'' ''user__id'')"
proof (intro conjI)
  show "validateMapping camelKey snakeValue \<longleftrightarrow> camelToSnake camelKey = snakeValue"
    by (simp add: validateMapping_def)
  show "validateMapping ''userId'' ''user_id''" by code_simp
  show "\<not> validateMapping ''userId'' ''userid''" by code_simp
  show "validateMapping ''userIDToken'' ''user_id_token''" by code_simp
  show "\<not> isCamelCase ''HTTPResponse''" by code_simp
  show "validateMapping ''HTTPResponse'' ''http_response''" by code_simp
  show "\<not> isSnakeCase ''user__id''" by code_simp
  show "validateMapping ''user__Id'' ''user__id''" by code_simp
qed

text \<open>
  The theorem of C8 at the key \<open>createdAt\<close>, with the right and with a wrong value.
\<close>

theorem validateMapping_exact_witness:
  "validateMapping ''createdAt'' ''created_at'' \<and> \<not> validateMapping ''createdAt'' ''created''"
proof -
  have a: "camelToSnake ''createdAt'' = ''created_at''" by code_simp
  show ?thesis
    using validateMapping_exact[of "''createdAt''" "''created_at''"]
      validateMapping_exact[of "''createdAt''" "''created''"] a
    by simp
qed

text \<open>
  Claim C9. \<open>camelToSnake\<close> maps every string that \<open>isCamelCase\<close> accepts to one that
  \<open>isSnakeCase\<close> accepts, and \<open>snakeToCamel\<close> maps every string that
  \<open>isSnakeCase\<close> accepts to one that \<open>isCamelCase\<close> accepts.
\<close>

theorem converters_map_domains:
  "(isCamelCase s \<longrightarrow> isSnakeCase (camelToSnake s)) \<and>
   (isSnakeCase s \<longrightarrow> isCamelCase (snakeToCamel s))"
  using camel_to_snake_domain snake_to_camel_domain by blast

text \<open>
  The theorem of C9 at \<open>userIDToken\<close>, which is camel case, and at \<open>user_123_id\<close>,
  which is snake case.
\<close>

theorem converters_map_domains_witness:
  "isSnakeCase (camelToSnake ''userIDToken'') \<and> isCamelCase (snakeToCamel ''user_123_id'')"
proof -
  have a: "isCamelCase ''userIDToken''" by code_simp
  have b: "isSnakeCase ''user_123_id''" by code_simp
  show ?thesis
    using converters_map_domains[of "''userIDToken''"] converters_map_domains[of "''user_123_id''"] a b
    by blast
qed

subsection \<open>parsers.ts\<close>

text \<open>
  Claim C10. \<open>parsePipe\<close> reports nothing for a file none of whose lines, trimmed and
  in upper case, starts with \<open>SELECT\<close> or \<open>WITH\<close>. Once a line does, that line and every
  line after it is scanned, whatever it holds: the issues are those of the scans of these
  lines, in order, each under its line number in the file.
\<close>

theorem parsePipe_sql_block:
  "((\<forall>l\<in>set (split content newline). \<not> startsSql l) \<longrightarrow> parsePipe content fn = []) \<and>
   (split content newline = pre @ l # post \<and> (\<forall>x\<in>set pre. \<not> startsSql x) \<and> startsSql l \<longrightarrow>
      parsePipe content fn =
        concat (map (\<lambda>(i, x). scanPipeLine fn i x) (enumerate (Suc (length pre)) (l # post))))"
proof (intro conjI impI)
  assume "\<forall>l\<in>set (split content newline). \<not> startsSql l"
  then show "parsePipe content fn = []"
    by (simp add: parsePipe_def pipe_fold_closed)
next
  assume h: "split content newline = pre @ l # post \<and> (\<forall>x\<in>set pre. \<not> startsSql x) \<and> startsSql l"
  let ?s0 = "\<lparr>inSqlBlock = False, pipeLineNumber = 0, pipeIssues = []\<rparr>"
  let ?s1 = "\<lparr>inSqlBlock = False, pipeLineNumber = length pre, pipeIssues = []\<rparr>"
  have a: "foldl (pipeLine fn) ?s0 pre = ?s1"
    using h by (simp add: pipe_fold_closed)
  have b: "pipeLine fn ?s1 l =
       \<lparr>inSqlBlock = True, pipeLineNumber = Suc (length pre),
        pipeIssues = scanPipeLine fn (Suc (length pre)) l\<rparr>"
    using h by (simp add: pipe_fold_first)
  show "parsePipe content fn =
        concat (map (\<lambda>(i, x). scanPipeLine fn i x) (enumerate (Suc (length pre)) (l # post)))"
    using h by (simp add: parsePipe_def a b pipe_fold_open)
qed

text \<open>
  The theorem of C10 at a file with an alias pattern and no \<open>SELECT\<close> or \<open>WITH\<close> line,
  which gives no issue, and at a file whose second line opens the block: the fourth line,
  after a blank one, is scanned and gives two issues.
\<close>

theorem parsePipe_sql_block_witness:
  "parsePipe (''-- total AS grand_total'' @ [newline] @ ''FROM events'') ''q.pipe'' = [] \<and>
   map line (parsePipe (''-- header'' @ [newline] @ ''select 1'' @ [newline] @ [newline] @ ''Foo as Bar'') ''q.pipe'') = [4, 4]"
proof -
  let ?c1 = "''-- total AS grand_total'' @ [newline] @ ''FROM events''"
  let ?c2 = "''-- header'' @ [newline] @ ''select 1'' @ [newline] @ [newline] @ ''Foo as Bar''"
  have h1: "\<forall>l\<in>set (split ?c1 newline). \<not> startsSql l" by code_simp
  have h2: "split ?c2 newline = [''-- header''] @ ''select 1'' # ['''', ''Foo as Bar''] \<and>
            (\<forall>x\<in>set [''-- header'']. \<not> startsSql x) \<and> startsSql ''select 1''"
    by code_simp
  have e: "map line (concat (map (\<lambda>(i, x). scanPipeLine ''q.pipe'' i x)
             (enumerate (Suc (length [''-- header''])) (''select 1'' # ['''', ''Foo as Bar''])))) = [4, 4]"
    by code_simp
  have a: "parsePipe ?c1 ''q.pipe'' = []"
    using parsePipe_sql_block[of ?c1 "''q.pipe''"] h1 by (rule conjunct1[THEN mp])
  have b: "parsePipe ?c2 ''q.pipe'' =
        concat (map (\<lambda>(i, x). scanPipeLine ''q.pipe'' i x)
             (enumerate (Suc (length [''-- header''])) (''select 1'' # ['''', ''Foo as Bar''])))"
    using parsePipe_sql_block[of ?c2 "''q.pipe''" "[''-- header'']" "''select 1''" "['''', ''Foo as Bar'']"] h2
    by (rule conjunct2[THEN mp])
  have r: "map line (parsePipe ?c2 ''q.pipe'') = [4, 4]" by (simp only: b e)
  show ?thesis using a r by (rule conjI)
qed

text \<open>
  Claim C3, as stated, fails: for the query of the scenario \<open>parsePipe\<close> returns two
  issues, not one.
\<close>

theorem parsePipe_scenario_counterexample:
  "length (parsePipe ''SELECT user_id AS userId, session_id AS session_id FROM events'' ''query.pipe'') = 2"
  by code_simp

text \<open>
  Claim C3, amended. For the single line
  \<open>SELECT user_id AS userId, session_id AS session_id FROM events\<close>, \<open>parsePipe\<close>
  returns exactly two issues, both at line 1 and both naming the alias
  \<open>session_id\<close>: the first because the alias fails the camelCase check, the second
  because the alias also matches the pattern for snake case aliases. No issue names the
  column \<open>user_id\<close>, the alias \<open>userId\<close> or the column \<open>session_id\<close>.
\<close>

theorem parsePipe_scenario:
  "parsePipe ''SELECT user_id AS userId, session_id AS session_id FROM events'' fn =
     [\<lparr>file = fn, line = 1, column = ''session_id'',
       issue = ''Alias '' @ [quote] @ ''session_id'' @ [quote] @
               '' should be in camelCase for API output'',
       severity = Error\<rparr>,
      \<lparr>file = fn, line = 1, column = ''session_id'',
       issue = ''Alias '' @ [quote] @ ''session_id'' @ [quote] @
               '' is snake_case but should be camelCase for API output'',
       severity = Error\<rparr>]"
proof -
  let ?q = "''SELECT user_id AS userId, session_id AS session_id FROM events''"
  have sp: "split ?q newline = [?q]" by code_simp
  have st: "startsSql ?q" by code_simp
  have "map (\<lambda>g. (g 1, g 2)) (matchAll asRx ?q) =
          [(''user_id'', ''userId''), (''session_id'', ''session_id'')]"
    by code_simp
  then obtain g1 g2 where ms: "matchAll asRx ?q = [g1, g2]"
    and g1: "g1 1 = ''user_id''" "g1 2 = ''userId''"
    and g2: "g2 1 = ''session_id''" "g2 2 = ''session_id''"
    by (rule two_matches)
  have sa: "map_option (\<lambda>g. g 1) (match snakeAliasRx ?q) = Some ''session_id''" by code_simp
  have c1: "isSnakeCase ''user_id''" by code_simp
  have c2: "isCamelCase ''userId''" by code_simp
  have c3: "isSnakeCase ''session_id''" by code_simp
  have c4: "\<not> isCamelCase ''session_id''" by code_simp
  have "parsePipe ?q fn = scanPipeLine fn 1 ?q" using sp st by (rule parsePipe_single_line)
  also have "\<dots> = concat (map (asIssues fn 1) (matchAll asRx ?q)) @
           [\<lparr>file = fn, line = 1, column = ''session_id'',
             issue = ''Alias '' @ [quote] @ ''session_id'' @ [quote] @
                     '' is snake_case but should be camelCase for API output'',
             severity = Error\<rparr>]"
    using sa c3 by (rule scanPipeLine_eval)
  also have "\<dots> = [\<lparr>file = fn, line = 1, column = ''session_id'',
       issue = ''Alias '' @ [quote] @ ''session_id'' @ [quote] @
               '' should be in camelCase for API output'',
       severity = Error\<rparr>,
      \<lparr>file = fn, line = 1, column = ''session_id'',
       issue = ''Alias '' @ [quote] @ ''session_id'' @ [quote] @
               '' is snake_case but should be camelCase for API output'',
       severity = Error\<rparr>]"
  proof -
    have i1: "asIssues fn 1 g1 = []"
      by (rule asIssues_clean) (simp_all only: g1 c1 c2)
    have i2: "asIssues fn 1 g2 =
       [\<lparr>file = fn, line = 1, column = ''session_id'',
         issue = ''Alias '' @ [quote] @ ''session_id'' @ [quote] @
                 '' should be in camelCase for API output'',
         severity = Error\<rparr>]"
      by (rule asIssues_alias) (simp_all only: g2 c3 c4 not_False_eq_True)
    show ?thesis by (simp only: ms list.map concat.simps i1 i2 append.simps)
  qed
  finally show ?thesis .
qed

text \<open>
  The theorem of C3 for the file name \<open>query.pipe\<close>.
\<close>

theorem parsePipe_scenario_witness:
  "map column (parsePipe ''SELECT user_id AS userId, session_id AS session_id FROM events'' ''query.pipe'') =
     [''session_id'', ''session_id'']"
  by (simp only: parsePipe_scenario[of "''query.pipe''"] list.map LintIssue.select_convs)

text \<open>
  Claim C4, as stated, fails: in the file of the scenario the header \<open>SCHEMA >\<close> is
  line 1 and \<open>userId String,\<close> line 3, and the only issue is at line 3, not 2.
\<close>

theorem parseDatasource_scenario_counterexample:
  "map line (parseDatasource
     (''SCHEMA >'' @ [newline] @ ''    user_id String,'' @ [newline] @
      ''    userId String,'' @ [newline] @ ''    session_id String'' @ [newline] @
      [newline] @ ''ENGINE MergeTree'') ''test.datasource'') = [3]"
  by code_simp

text \<open>
  Claim C4, amended. Take a file where some lines that open no schema section come first,
  then a header line that opens it, then the lines \<open>user_id String,\<close>,
  \<open>userId String,\<close> and \<open>session_id String\<close> (with any white space around them), then
  only blank lines, \<open>ENGINE\<close> lines and comments. \<open>parseDatasource\<close> returns exactly
  one issue; it is at the line number that \<open>userId String,\<close> has in the file, which is
  the number of lines before the header plus 3 (so 3 when the header is the first line); it
  names the column \<open>userId\<close> and its message contains \<open>snake_case\<close>.
\<close>

theorem parseDatasource_schema_scenario:
  assumes "split content newline = pre @ [hdr, l1, l2, l3] @ post"
    and "\<forall>x\<in>set pre. \<not> schemaHeader x"
    and "schemaHeader hdr"
    and "trim l1 = ''user_id String,''"
    and "trim l2 = ''userId String,''"
    and "trim l3 = ''session_id String''"
    and "\<forall>x\<in>set post. quietLine x"
  shows "parseDatasource content fn =
           [\<lparr>file = fn, line = length pre + 3, column = ''userId'',
             issue = ''Column name '' @ [quote] @ ''userId'' @ [quote] @
                     '' should be in snake_case'',
             severity = Error\<rparr>] \<and>
         includes' (''Column name '' @ [quote] @ ''userId'' @ [quote] @
                    '' should be in snake_case'') ''snake_case''"
proof
  let ?s0 = "\<lparr>inSchemaSection = False, lineNumber = 0, issues = []\<rparr>"
  let ?i = "\<lparr>file = fn, line = length pre + 3, column = ''userId'',
             issue = ''Column name '' @ [quote] @ ''userId'' @ [quote] @
                     '' should be in snake_case'',
             severity = Error\<rparr>"
  have s1: "foldl (datasourceLine fn) ?s0 pre =
            \<lparr>inSchemaSection = False, lineNumber = length pre, issues = []\<rparr>"
    using assms(2) by (simp add: datasource_fold_outside)
  have s2: "datasourceLine fn \<lparr>inSchemaSection = False, lineNumber = length pre, issues = []\<rparr> hdr =
            \<lparr>inSchemaSection = True, lineNumber = length pre + 1, issues = []\<rparr>"
    using assms(3) by (simp add: datasource_header)
  have s3: "datasourceLine fn \<lparr>inSchemaSection = True, lineNumber = length pre + 1, issues = []\<rparr> l1 =
            \<lparr>inSchemaSection = True, lineNumber = length pre + 2, issues = []\<rparr>"
    using assms(4) by (simp add: line_user_id)
  have s4: "datasourceLine fn \<lparr>inSchemaSection = True, lineNumber = length pre + 2, issues = []\<rparr> l2 =
            \<lparr>inSchemaSection = True, lineNumber = length pre + 3, issues = [?i]\<rparr>"
    using assms(5) by (simp add: line_userId)
  have s5: "datasourceLine fn \<lparr>inSchemaSection = True, lineNumber = length pre + 3, issues = [?i]\<rparr> l3 =
            \<lparr>inSchemaSection = True, lineNumber = length pre + 4, issues = [?i]\<rparr>"
    using assms(6) by (simp add: line_session_id)
  have "parseDatasource content fn =
        issues (foldl (datasourceLine fn)
          \<lparr>inSchemaSection = True, lineNumber = length pre + 4, issues = [?i]\<rparr> post)"
    by (simp only: parseDatasource_def assms(1) foldl_append foldl.simps s1 s2 s3 s4 s5)
  also have "\<dots> = [?i]" using assms(7) by (simp only: datasource_fold_quiet DatasourceState.select_convs)
  finally show "parseDatasource content fn = [?i]" .
  have "includes' ((''Column name '' @ [quote] @ ''userId'' @ [quote] @ '' should be in '') @ ''snake_case'') ''snake_case''"
    by (rule includes_append)
  then show "includes' (''Column name '' @ [quote] @ ''userId'' @ [quote] @
                    '' should be in snake_case'') ''snake_case''"
    by simp
qed

text \<open>
  The theorem of C4 at the file of the repository's test (header first, issue at line 3)
  and at a file with two lines before the header (issue at line 5).
\<close>

theorem parseDatasource_schema_scenario_witness:
  "map line (parseDatasource
     (''SCHEMA >'' @ [newline] @ ''    user_id String,'' @ [newline] @
      ''    userId String,'' @ [newline] @ ''    session_id String'' @ [newline] @
      [newline] @ ''ENGINE MergeTree'') ''test.datasource'') = [3] \<and>
   map line (parseDatasource
     (''# events'' @ [newline] @ [newline] @ ''schema >'' @ [newline] @ ''  user_id String,  '' @
      [newline] @ [CHR 0x09] @ ''userId String,'' @ [newline] @ ''session_id String'')
     ''events.datasource'') = [5]"
proof -
  let ?c1 = "''SCHEMA >'' @ [newline] @ ''    user_id String,'' @ [newline] @
      ''    userId String,'' @ [newline] @ ''    session_id String'' @ [newline] @
      [newline] @ ''ENGINE MergeTree''"
  let ?c2 = "''# events'' @ [newline] @ [newline] @ ''schema >'' @ [newline] @ ''  user_id String,  '' @
      [newline] @ [CHR 0x09] @ ''userId String,'' @ [newline] @ ''session_id String''"
  have a1: "split ?c1 newline =
      [] @ [''SCHEMA >'', ''    user_id String,'', ''    userId String,'', ''    session_id String''] @
      ['''', ''ENGINE MergeTree'']" by code_simp
  have a2: "\<forall>x\<in>set ([]::string list). \<not> schemaHeader x" by simp
  have a3: "schemaHeader ''SCHEMA >''" by code_simp
  have a4: "trim ''    user_id String,'' = ''user_id String,''" by code_simp
  have a5: "trim ''    userId String,'' = ''userId String,''" by code_simp
  have a6: "trim ''    session_id String'' = ''session_id String''" by code_simp
  have a7: "\<forall>x\<in>set ['''', ''ENGINE MergeTree'']. quietLine x" by code_simp
  have r1: "parseDatasource ?c1 ''test.datasource'' =
           [\<lparr>file = ''test.datasource'', line = length ([]::string list) + 3, column = ''userId'',
             issue = ''Column name '' @ [quote] @ ''userId'' @ [quote] @
                     '' should be in snake_case'',
             severity = Error\<rparr>]"
    using parseDatasource_schema_scenario[OF a1 a2 a3 a4 a5 a6 a7, of "''test.datasource''"]
    by (rule conjunct1)
  have b1: "split ?c2 newline =
      [''# events'', ''''] @
      [''schema >'', ''  user_id String,  '', [CHR 0x09] @ ''userId String,'', ''session_id String''] @
      []" by code_simp
  have b2: "\<forall>x\<in>set [''# events'', '''']. \<not> schemaHeader x" by code_simp
  have b3: "schemaHeader ''schema >''" by code_simp
  have b4: "trim ''  user_id String,  '' = ''user_id String,''" by code_simp
  have b5: "trim ([CHR 0x09] @ ''userId String,'') = ''userId String,''" by code_simp
  have b6: "trim ''session_id String'' = ''session_id String''" by code_simp
  have b7: "\<forall>x\<in>set ([]::string list). quietLine x" by simp
  have r2: "parseDatasource ?c2 ''events.datasource'' =
           [\<lparr>file = ''events.datasource'', line = length [''# events'', ''''] + 3,
             column = ''userId'',
             issue = ''Column name '' @ [quote] @ ''userId'' @ [quote] @
                     '' should be in snake_case'',
             severity = Error\<rparr>]"
    using parseDatasource_schema_scenario[OF b1 b2 b3 b4 b5 b6 b7, of "''events.datasource''"]
    by (rule conjunct1)
  have "map line (parseDatasource ?c1 ''test.datasource'') = [3]"
    by (simp only: r1 list.map LintIssue.select_convs) simp
  moreover have "map line (parseDatasource ?c2 ''events.datasource'') = [5]"
    by (simp only: r2 list.map LintIssue.select_convs) simp
  ultimately show ?thesis by (rule conjI)
qed

end
